theory Spec2Isabelle
  imports Complex_Main "HOL-Library.Word"
begin

section \<open>Data model\<close>

text \<open>
  The scheduler of DNS-CPP (\<^verbatim>\<open>src/core.cpp\<close>) owns three queues of shared pointers to
  lookups. A lookup is an object with identity: the queues, the UDP sockets and the
  user all refer to the same object. The model therefore keeps the objects in a store
  (a map from object identities to the objects' fields) and the queues hold identities.

  Where the C++ aborts or throws, or uses what is not there (a null pointer, an object
  or a list node that was freed), the run ends in an error value: the functions below
  return \<open>error + 'a\<close>, with \<open>Inl\<close> the error.
  Times are \<^verbatim>\<open>double\<close> in the source and \<open>real\<close> here.
\<close>

datatype error =
    NullPointer       \<comment> \<open>a call through a null \<^verbatim>\<open>Handler*\<close>\<close>
  | BadWeakPtr        \<comment> \<open>\<^verbatim>\<open>shared_from_this()\<close> on an object no shared pointer owns\<close>
  | InvalidIterator   \<comment> \<open>\<^verbatim>\<open>erase\<close> with a singular iterator\<close>
  | EmptyQueue        \<comment> \<open>\<^verbatim>\<open>front()\<close>/\<^verbatim>\<open>pop_front()\<close> of an empty list\<close>
  | DivisionByZero    \<comment> \<open>\<^verbatim>\<open>% nscount\<close> with no nameserver\<close>
  | AssertionFailed   \<comment> \<open>a failed \<^verbatim>\<open>assert\<close>\<close>
  | Dangling          \<comment> \<open>use of an object or a list node that is gone, or not of the class\<close>

type_synonym 'a result = "error + 'a"

definition bindE :: "'a result \<Rightarrow> ('a \<Rightarrow> 'b result) \<Rightarrow> 'b result" where
  "bindE m f = (case m of Inl e \<Rightarrow> Inl e | Inr x \<Rightarrow> f x)"

type_synonym lid = nat      \<comment> \<open>identity of a lookup object\<close>
type_synonym hid = nat      \<comment> \<open>identity of a user-space \<^verbatim>\<open>Handler\<close>\<close>

text \<open>
  Modelled from the spec: the classes \<^verbatim>\<open>Ip\<close>, \<^verbatim>\<open>Query\<close>, \<^verbatim>\<open>Response\<close> and \<^verbatim>\<open>Connection\<close> are
  declared in headers that are not among the sources; the records hold the attributes
  the code under study reads: \<^verbatim>\<open>ip.version()\<close>, \<^verbatim>\<open>_query.id()\<close>, \<^verbatim>\<open>response.rcode()\<close>,
  \<^verbatim>\<open>response.truncated()\<close>, \<^verbatim>\<open>Question(response).name()\<close>.
\<close>

record ip =
  version :: nat
  address :: nat

record query =
  qid :: "16 word"
  qname :: string
  qbits :: nat

record response =
  rid :: "16 word"
  rname :: string
  rbits :: nat
  rcode :: nat
  truncated :: bool
  answers :: "string list"

definition ns_r_nxdomain :: nat where
  "ns_r_nxdomain = 3"

definition ns_r_noerror :: nat where
  "ns_r_noerror = 0"

text \<open>The calls a lookup makes on the user's \<^verbatim>\<open>Handler\<close>.\<close>

datatype callback = OnReceived response | OnTimeout | OnCancelled | OnFailure nat

text \<open>The two UDP socket sets of the core, \<^verbatim>\<open>_ipv4\<close> and \<^verbatim>\<open>_ipv6\<close>.\<close>

datatype inbound = V4 | V6

record connection =
  peer :: ip
  original :: response

subsection \<open>Lookups\<close>

text \<open>
  An iterator of a \<^verbatim>\<open>std::list\<close> names one node of one list: the pair of the list's
  identity and the node's number in that list. \<open>None\<close> is the singular iterator of
  a lookup that was never pushed.
\<close>

type_synonym iterator = "nat \<times> nat"

record remote =
  count :: nat
  last :: real
  rand_id :: nat
  subscriptions :: "(inbound \<times> ip) list"
  connection :: "connection option"

record local =
  is_ready :: bool
  timestamp :: real

datatype impl = RemoteLookup remote | LocalLookup local

record lookup =
  handler :: "hid option"
  query :: query
  position :: "iterator option"
  impl :: impl

type_synonym heap = "lid \<Rightarrow> lookup option"

subsection \<open>Queue (\<^verbatim>\<open>src/queue.cpp\<close>, \<^verbatim>\<open>include/dnscpp/queue.h\<close>)\<close>

text \<open>
  \<open>container\<close> is the list \<^verbatim>\<open>_c\<close>, a \<^verbatim>\<open>std::list\<close>: the chain of its nodes front first, each
  node with its number and the shared pointer it holds. \<open>next_node\<close> numbers the node
  of the next \<^verbatim>\<open>push_back\<close>, so that no two nodes of a list ever share a number and an
  iterator to an erased node stays invalid. \<open>node_count\<close> is the number of nodes that the
  list keeps beside the chain, a \<^verbatim>\<open>size_t\<close>: \<^verbatim>\<open>push_back\<close> adds one to it, \<^verbatim>\<open>pop_front\<close> and
  \<^verbatim>\<open>erase\<close> subtract one. \<^verbatim>\<open>size()\<close> returns this number; \<^verbatim>\<open>empty()\<close>, \<^verbatim>\<open>begin()\<close> and
  \<^verbatim>\<open>front()\<close> look at the chain (this is the list of the GNU C++ library).
\<close>

record queue =
  ident :: nat
  container :: "(nat \<times> lid) list"
  next_node :: nat
  node_count :: "64 word"

definition queue_size :: "queue \<Rightarrow> 64 word" where
  "queue_size q = node_count q"

definition queue_empty :: "queue \<Rightarrow> bool" where
  "queue_empty q = (container q = [])"

definition queue_front :: "queue \<Rightarrow> lid result" where
  "queue_front q = (case container q of [] \<Rightarrow> Inl EmptyQueue | (n, item) # rest \<Rightarrow> Inr item)"

text \<open>\<^verbatim>\<open>_c.push_back(item); item->position(std::prev(_c.end()));\<close>\<close>

definition queue_push :: "lid \<Rightarrow> queue \<Rightarrow> heap \<Rightarrow> (queue \<times> heap) result" where
  "queue_push item q h =
     (case h item of
        None \<Rightarrow> Inl Dangling
      | Some l \<Rightarrow>
          Inr (q\<lparr>container := container q @ [(next_node q, item)],
                  next_node := Suc (next_node q),
                  node_count := node_count q + 1\<rparr>,
               h(item \<mapsto> l\<lparr>position := Some (ident q, next_node q)\<rparr>)))"

text \<open>\<^verbatim>\<open>auto item = std::move(_c.front()); _c.pop_front(); return item;\<close>\<close>

definition queue_pop :: "queue \<Rightarrow> (lid \<times> queue) result" where
  "queue_pop q =
     (case container q of
        [] \<Rightarrow> Inl EmptyQueue
      | (n, item) # rest \<Rightarrow> Inr (item, q\<lparr>container := rest, node_count := node_count q - 1\<rparr>))"

text \<open>
  \<^verbatim>\<open>const bool atFrontOfQueue = _c.begin() == item->position();\<close>
  \<^verbatim>\<open>_c.erase(item->position()); return atFrontOfQueue;\<close>

  Nothing tests that the position is a node of this list. \<^verbatim>\<open>erase\<close> unlinks the node
  from the chain it is in and subtracts one from the node count of the list it is called
  on: \<open>unhook\<close> is what it does to the chain of a list, \<open>erase\<close> what it does to the list it
  is called on. For a node of another list the chain of this list stays as it is and its
  node count is one less all the same; below zero it wraps around. The iterator of a
  lookup that was never pushed is singular, and there is no node to unlink.
\<close>

definition at_begin :: "queue \<Rightarrow> iterator \<Rightarrow> bool" where
  "at_begin q it =
     (case container q of [] \<Rightarrow> False | (n, item) # rest \<Rightarrow> it = (ident q, n))"

definition valid_in :: "queue \<Rightarrow> iterator \<Rightarrow> bool" where
  "valid_in q it = (fst it = ident q \<and> snd it \<in> set (map fst (container q)))"

definition unhook :: "iterator \<Rightarrow> queue \<Rightarrow> queue" where
  "unhook it q = q\<lparr>container := filter (\<lambda>node. (ident q, fst node) \<noteq> it) (container q)\<rparr>"

definition erase :: "queue \<Rightarrow> iterator \<Rightarrow> queue" where
  "erase q it = (unhook it q)\<lparr>node_count := node_count q - 1\<rparr>"

definition queue_pop_item :: "lid \<Rightarrow> queue \<Rightarrow> heap \<Rightarrow> (bool \<times> queue) result" where
  "queue_pop_item item q h =
     (case h item of
        None \<Rightarrow> Inl Dangling
      | Some l \<Rightarrow>
          (case position l of
             None \<Rightarrow> Inl InvalidIterator
           | Some it \<Rightarrow> Inr (at_begin q it, erase q it)))"

text \<open>The node numbers of a queue are pairwise different and below \<open>next_node\<close>.\<close>

definition queue_inv :: "queue \<Rightarrow> bool" where
  "queue_inv q =
     (distinct (map fst (container q)) \<and> list_all (\<lambda>node. fst node < next_node q) (container q))"


section \<open>The core's state\<close>

text \<open>
  Modelled from the spec: the class of the UDP socket sets (\<^verbatim>\<open>_ipv4\<close>, \<^verbatim>\<open>_ipv6\<close>) is not
  among the sources. The spec gives it a buffer of received \<open>(peer, bytes)\<close> pairs that
  \<^verbatim>\<open>deliver\<close> drains, and subscriptions of lookups by \<open>(peer, query id)\<close>.
\<close>

record udps =
  buffer :: "(ip \<times> response) list"
  subscribed :: "(lid \<times> ip \<times> 16 word) list"

text \<open>
  The fields of \<^verbatim>\<open>Core\<close> that \<^verbatim>\<open>core.cpp\<close> uses. \<open>timer\<close> is the delay the armed timer was
  set with (\<open>None\<close>: \<^verbatim>\<open>_timer == nullptr\<close>). \<open>hosts\<close> is the \<^verbatim>\<open>/etc/hosts\<close> database.
  \<open>capacity\<close> is a \<^verbatim>\<open>size_t\<close>, as \<^verbatim>\<open>_lookups.size()\<close> that step 3 compares it with.
  \<open>events\<close> and \<open>datagrams\<close> are not fields of the class: they record, oldest first, the
  calls made on user-space handlers and the calls of \<^verbatim>\<open>Core::datagram\<close>.
\<close>

record core =
  nameservers :: "ip list"
  scheduled :: queue
  lookups :: queue
  ready :: queue
  capacity :: "64 word"
  attempts :: nat
  timeout :: real
  rotate :: bool
  timer :: "real option"
  hosts :: "string \<Rightarrow> string list option"
  ipv4 :: udps
  ipv6 :: udps
  objects :: heap
  next_lid :: nat
  events :: "(hid \<times> lid \<times> callback) list"
  datagrams :: "(ip \<times> query) list"

definition deref :: "core \<Rightarrow> lid \<Rightarrow> lookup result" where
  "deref s l = (case objects s l of None \<Rightarrow> Inl Dangling | Some obj \<Rightarrow> Inr obj)"

text \<open>The object as a \<^verbatim>\<open>RemoteLookup\<close>, respectively a \<^verbatim>\<open>LocalLookup\<close>.\<close>

definition deref_remote :: "core \<Rightarrow> lid \<Rightarrow> (lookup \<times> remote) result" where
  "deref_remote s l =
     (case objects s l of
        None \<Rightarrow> Inl Dangling
      | Some obj \<Rightarrow> (case impl obj of RemoteLookup r \<Rightarrow> Inr (obj, r) | LocalLookup k \<Rightarrow> Inl Dangling))"

definition deref_local :: "core \<Rightarrow> lid \<Rightarrow> (lookup \<times> local) result" where
  "deref_local s l =
     (case objects s l of
        None \<Rightarrow> Inl Dangling
      | Some obj \<Rightarrow> (case impl obj of LocalLookup k \<Rightarrow> Inr (obj, k) | RemoteLookup r \<Rightarrow> Inl Dangling))"

definition put :: "lid \<Rightarrow> lookup \<Rightarrow> core \<Rightarrow> core" where
  "put l obj s = s\<lparr>objects := (objects s)(l \<mapsto> obj)\<rparr>"

text \<open>A call \<^verbatim>\<open>handler->on...(this, ...)\<close>: undefined through a null pointer.\<close>

definition invoke :: "hid option \<Rightarrow> lid \<Rightarrow> callback \<Rightarrow> core \<Rightarrow> core result" where
  "invoke h l cb s =
     (case h of
        None \<Rightarrow> Inl NullPointer
      | Some u \<Rightarrow> Inr (s\<lparr>events := events s @ [(u, l, cb)]\<rparr>))"

text \<open>The callbacks a lookup's handler has received so far.\<close>

definition callbacks_of :: "lid \<Rightarrow> core \<Rightarrow> callback list" where
  "callbacks_of l s = map (\<lambda>ev. snd (snd ev)) (filter (\<lambda>ev. fst (snd ev) = l) (events s))"

subsection \<open>The three queues of the core\<close>

definition push_scheduled :: "lid \<Rightarrow> core \<Rightarrow> core result" where
  "push_scheduled l s =
     bindE (queue_push l (scheduled s) (objects s))
       (\<lambda>(q, h). Inr (s\<lparr>scheduled := q, objects := h\<rparr>))"

definition push_lookups :: "lid \<Rightarrow> core \<Rightarrow> core result" where
  "push_lookups l s =
     bindE (queue_push l (lookups s) (objects s))
       (\<lambda>(q, h). Inr (s\<lparr>lookups := q, objects := h\<rparr>))"

definition push_ready :: "lid \<Rightarrow> core \<Rightarrow> core result" where
  "push_ready l s =
     bindE (queue_push l (ready s) (objects s))
       (\<lambda>(q, h). Inr (s\<lparr>ready := q, objects := h\<rparr>))"

text \<open>
  A lookup lives as long as a shared pointer owns it. The only long-lived shared
  pointers are the nodes of the three queues (the user holds a plain \<^verbatim>\<open>Operation*\<close>, the
  sockets hold plain \<^verbatim>\<open>this\<close> pointers).
\<close>

definition owned :: "core \<Rightarrow> lid \<Rightarrow> bool" where
  "owned s l =
     (l \<in> set (map snd (container (scheduled s) @ container (lookups s) @ container (ready s))))"

text \<open>
  \<^verbatim>\<open>shared_from_this()\<close> yields a shared pointer to an object that one already owns and
  throws \<^verbatim>\<open>std::bad_weak_ptr\<close> otherwise; this is the case inside the destructor.
\<close>

definition shared_from_this :: "lid \<Rightarrow> core \<Rightarrow> lid result" where
  "shared_from_this l s = (if owned s l then Inr l else Inl BadWeakPtr)"

text \<open>
  The position of a lookup is the node that holds it, in whichever of the three queues
  it is. \<^verbatim>\<open>Core::done\<close> erases that node through \<^verbatim>\<open>_lookups\<close>: \<open>unlink\<close> is what the
  \<^verbatim>\<open>erase\<close> does to the chains of \<^verbatim>\<open>_scheduled\<close> and \<^verbatim>\<open>_ready\<close>. A position whose node is in none
  of the three chains is a node that was freed.
\<close>

definition linked :: "core \<Rightarrow> iterator \<Rightarrow> bool" where
  "linked s it = (valid_in (scheduled s) it \<or> valid_in (lookups s) it \<or> valid_in (ready s) it)"

definition unlink :: "lid \<Rightarrow> core \<Rightarrow> core result" where
  "unlink l s =
     (case map_option position (objects s l) of
        None \<Rightarrow> Inl Dangling
      | Some None \<Rightarrow> Inl InvalidIterator
      | Some (Some it) \<Rightarrow>
          if linked s it
          then Inr (s\<lparr>scheduled := unhook it (scheduled s), ready := unhook it (ready s)\<rparr>)
          else Inl Dangling)"

text \<open>
  \<^verbatim>\<open>bool front = _lookups.pop(lookup); _ready.push(lookup); if (!front) return;\<close>
  (nothing follows the test in the source but a comment).
\<close>

definition core_done :: "lid \<Rightarrow> core \<Rightarrow> core result" where
  "core_done l s =
     bindE (unlink l s)
       (\<lambda>s1. bindE (queue_pop_item l (lookups s1) (objects s1))
          (\<lambda>(front, q). push_ready l (s1\<lparr>lookups := q\<rparr>)))"

text \<open>\<^verbatim>\<open>if (_timer != nullptr) _loop->cancel(_timer, this); _timer = _loop->timer(0.0, this);\<close>\<close>

definition core_onBuffered :: "core \<Rightarrow> core" where
  "core_onBuffered s = s\<lparr>timer := Some 0\<rparr>"

text \<open>\<^verbatim>\<open>_scheduled.push(lookup); onBuffered(nullptr); return lookup.get();\<close>\<close>

definition core_reschedule :: "lid \<Rightarrow> core \<Rightarrow> core result" where
  "core_reschedule l s = bindE (push_scheduled l s) (\<lambda>s1. Inr (core_onBuffered s1))"

text \<open>
  \<^verbatim>\<open>Core::add\<close> takes the shared pointer of a lookup the caller has constructed; the
  model allocates the object in the store first and returns its identity.
\<close>

definition core_add :: "lookup \<Rightarrow> core \<Rightarrow> (lid \<times> core) result" where
  "core_add obj s =
     (let l = next_lid s in
      bindE (core_reschedule l (put l obj (s\<lparr>next_lid := Suc l\<rparr>))) (\<lambda>s1. Inr (l, s1)))"

definition core_exists :: "core \<Rightarrow> string \<Rightarrow> bool" where
  "core_exists s name = (hosts s name \<noteq> None)"

subsection \<open>Sending\<close>

definition udps_of :: "inbound \<Rightarrow> core \<Rightarrow> udps" where
  "udps_of v s = (case v of V4 \<Rightarrow> ipv4 s | V6 \<Rightarrow> ipv6 s)"

definition set_udps :: "inbound \<Rightarrow> udps \<Rightarrow> core \<Rightarrow> core" where
  "set_udps v u s = (case v of V4 \<Rightarrow> s\<lparr>ipv4 := u\<rparr> | V6 \<Rightarrow> s\<lparr>ipv6 := u\<rparr>)"

text \<open>
  \<^verbatim>\<open>switch (ip.version()) { case 4: return _ipv4.send(ip, query);\<close>
  \<^verbatim>\<open>case 6: return _ipv6.send(ip, query); default: return nullptr; }\<close>
  Whether the socket's \<^verbatim>\<open>send\<close> returns an object or null is the network's answer: the
  parameter \<open>sendable\<close>.
\<close>

definition core_datagram :: "(ip \<Rightarrow> bool) \<Rightarrow> ip \<Rightarrow> query \<Rightarrow> core \<Rightarrow> inbound option \<times> core" where
  "core_datagram sendable a q s =
     ((if version a = 4 then (if sendable a then Some V4 else None)
       else if version a = 6 then (if sendable a then Some V6 else None)
       else None),
      s\<lparr>datagrams := datagrams s @ [(a, q)]\<rparr>)"

text \<open>Modelled from the spec: \<^verbatim>\<open>subscribe\<close> and \<^verbatim>\<open>unsubscribe\<close> of a socket set register and
  withdraw a lookup's interest in the responses of a peer with a query id.\<close>

definition udps_subscribe :: "lid \<Rightarrow> ip \<Rightarrow> 16 word \<Rightarrow> udps \<Rightarrow> udps" where
  "udps_subscribe l a i u = u\<lparr>subscribed := List.insert (l, a, i) (subscribed u)\<rparr>"

definition udps_unsubscribe :: "lid \<Rightarrow> ip \<Rightarrow> 16 word \<Rightarrow> udps \<Rightarrow> udps" where
  "udps_unsubscribe l a i u = u\<lparr>subscribed := removeAll (l, a, i) (subscribed u)\<rparr>"


section \<open>RemoteLookup (\<^verbatim>\<open>src/remotelookup.cpp\<close>)\<close>

text \<open>
  Modelled from the spec: the fields \<^verbatim>\<open>_count\<close>, \<^verbatim>\<open>_last\<close>, \<^verbatim>\<open>_id\<close>, \<^verbatim>\<open>_subscriptions\<close> and
  \<^verbatim>\<open>_connection\<close> of the record \<open>remote\<close> are declared in \<^verbatim>\<open>remotelookup.h\<close>, which is not
  among the sources; \<open>count\<close> and \<open>rand_id\<close> are natural numbers here (\<^verbatim>\<open>_id\<close> is the value of \<^verbatim>\<open>rand()\<close>), and \<open>subscriptions\<close> is the
  \<^verbatim>\<open>std::set\<close> as a list without repetitions.
\<close>

text \<open>\<^verbatim>\<open>assert(_core->attempts() >= _count); return _core->attempts() - _count;\<close>\<close>

definition remote_credits :: "core \<Rightarrow> remote \<Rightarrow> nat result" where
  "remote_credits s r =
     (if count r \<le> attempts s then Inr (attempts s - count r) else Inl AssertionFailed)"

text \<open>
  \<^verbatim>\<open>for (const auto &subscription : _subscriptions)\<close>
  \<^verbatim>\<open>subscription.first->unsubscribe(this, subscription.second, _query.id());\<close>
  \<^verbatim>\<open>_subscriptions.clear();\<close>
\<close>

fun unsubscribe_each :: "lid \<Rightarrow> 16 word \<Rightarrow> (inbound \<times> ip) list \<Rightarrow> core \<Rightarrow> core" where
  "unsubscribe_each l i [] s = s"
| "unsubscribe_each l i ((v, a) # rest) s =
     unsubscribe_each l i rest (set_udps v (udps_unsubscribe l a i (udps_of v s)) s)"

definition remote_unsubscribe :: "lid \<Rightarrow> core \<Rightarrow> core result" where
  "remote_unsubscribe l s =
     bindE (deref_remote s l)
       (\<lambda>(obj, r).
          Inr (put l (obj\<lparr>impl := RemoteLookup (r\<lparr>subscriptions := []\<rparr>)\<rparr>)
                 (unsubscribe_each l (qid (query obj)) (subscriptions r) s)))"

text \<open>
  \<^verbatim>\<open>auto handler = _handler; _handler = nullptr; _connection.reset(); unsubscribe();\<close>
  \<^verbatim>\<open>if (handler) _core->done(shared_from_this()); return handler;\<close>
\<close>

definition remote_cleanup :: "lid \<Rightarrow> core \<Rightarrow> (hid option \<times> core) result" where
  "remote_cleanup l s =
     bindE (deref_remote s l)
       (\<lambda>(obj, r).
          let h = handler obj;
              s1 = put l (obj\<lparr>handler := None, impl := RemoteLookup (r\<lparr>connection := None\<rparr>)\<rparr>) s
          in bindE (remote_unsubscribe l s1)
               (\<lambda>s2. if h \<noteq> None
                      then bindE (shared_from_this l s2)
                             (\<lambda>p. bindE (core_done p s2) (\<lambda>s3. Inr (h, s3)))
                      else Inr (h, s2)))"

text \<open>\<^verbatim>\<open>cleanup()->onTimeout(this); return false;\<close>\<close>

definition remote_timeout :: "lid \<Rightarrow> core \<Rightarrow> (bool \<times> core) result" where
  "remote_timeout l s =
     bindE (remote_cleanup l s)
       (\<lambda>(h, s1). bindE (invoke h l OnTimeout s1) (\<lambda>s2. Inr (False, s2)))"

text \<open>
  \<^verbatim>\<open>size_t nscount = nameservers.size();\<close>
  \<^verbatim>\<open>const Ip &nameserver = nameservers[_core->rotate() ? (_count + _id) % nscount : _count % nscount];\<close>
  \<^verbatim>\<open>if (auto *inbound = _core->datagram(nameserver, _query)) {\<close>
  \<^verbatim>\<open>inbound->subscribe(this, nameserver, _query.id());\<close>
  \<^verbatim>\<open>_subscriptions.emplace(std::make_pair(inbound, nameserver)); }\<close>
  \<^verbatim>\<open>_count += 1; _last = now; return true;\<close>
\<close>

definition nameserver_index :: "core \<Rightarrow> remote \<Rightarrow> nat" where
  "nameserver_index s r =
     (if rotate s then (count r + rand_id r) mod length (nameservers s)
      else count r mod length (nameservers s))"

definition remote_execute :: "(ip \<Rightarrow> bool) \<Rightarrow> real \<Rightarrow> lid \<Rightarrow> core \<Rightarrow> (bool \<times> core) result" where
  "remote_execute sendable now l s =
     bindE (deref_remote s l)
       (\<lambda>(obj, r).
          if length (nameservers s) = 0 then Inl DivisionByZero
          else
            let nameserver = nameservers s ! nameserver_index s r;
                (inb, s1) = core_datagram sendable nameserver (query obj) s;
                (subs, s2) =
                  (case inb of
                     None \<Rightarrow> (subscriptions r, s1)
                   | Some v \<Rightarrow>
                       (List.insert (v, nameserver) (subscriptions r),
                        set_udps v (udps_subscribe l nameserver (qid (query obj)) (udps_of v s1)) s1))
            in Inr (True,
                    put l (obj\<lparr>impl := RemoteLookup
                                 (r\<lparr>subscriptions := subs, count := count r + 1, last := now\<rparr>)\<rparr>) s2))"

text \<open>
  Modelled from the spec: \<^verbatim>\<open>Query::matches\<close> and \<^verbatim>\<open>FakeResponse\<close> are not among the
  sources. A response matches a query with the same id. The fake response is built
  from the request and the question alone: the request's id and flag bits, the question,
  the rcode of success and no answer.
\<close>

definition matches :: "query \<Rightarrow> response \<Rightarrow> bool" where
  "matches q r = (rid r = qid q)"

definition fake_response :: "query \<Rightarrow> string \<Rightarrow> response" where
  "fake_response request question =
     \<lparr>rid = qid request, rname = question, rbits = qbits request,
      rcode = ns_r_noerror, truncated = False, answers = []\<rparr>"

text \<open>
  \<^verbatim>\<open>if (_handler == nullptr) return;\<close>
  \<^verbatim>\<open>if (response.rcode() != ns_r_nxdomain) return cleanup()->onReceived(this, response);\<close>
  \<^verbatim>\<open>Question question(response);\<close>
  \<^verbatim>\<open>if (!_core->exists(question.name())) return cleanup()->onReceived(this, response);\<close>
  \<^verbatim>\<open>Request request(this); FakeResponse fake(request, question);\<close>
  \<^verbatim>\<open>cleanup()->onReceived(this, Response(fake.data(), fake.size()));\<close>
\<close>

definition remote_report :: "response \<Rightarrow> lid \<Rightarrow> core \<Rightarrow> core result" where
  "remote_report resp l s =
     bindE (deref_remote s l)
       (\<lambda>(obj, r).
          if handler obj = None then Inr s
          else if rcode resp \<noteq> ns_r_nxdomain
          then bindE (remote_cleanup l s) (\<lambda>(h, s1). invoke h l (OnReceived resp) s1)
          else if \<not> core_exists s (rname resp)
          then bindE (remote_cleanup l s) (\<lambda>(h, s1). invoke h l (OnReceived resp) s1)
          else bindE (remote_cleanup l s)
                 (\<lambda>(h, s1). invoke h l (OnReceived (fake_response (query obj) (rname resp))) s1))"

text \<open>
  The UDP path, \<^verbatim>\<open>onReceived(const Ip &ip, const Response &response)\<close>:
  \<^verbatim>\<open>if (!_query.matches(response)) return false; if (_connection) return false;\<close>
  \<^verbatim>\<open>if (!response.truncated()) { report(response); return true; }\<close>
  \<^verbatim>\<open>_connection.reset(new Connection(_core->loop(), ip, _query, response, this));\<close>
  \<^verbatim>\<open>unsubscribe(); _last = Now(); return true;\<close>
  The argument \<open>now\<close> is the clock that \<^verbatim>\<open>Now()\<close> reads.
\<close>

definition remote_onReceived :: "real \<Rightarrow> ip \<Rightarrow> response \<Rightarrow> lid \<Rightarrow> core \<Rightarrow> (bool \<times> core) result" where
  "remote_onReceived now a resp l s =
     bindE (deref_remote s l)
       (\<lambda>(obj, r).
          if \<not> matches (query obj) resp then Inr (False, s)
          else if connection r \<noteq> None then Inr (False, s)
          else if \<not> truncated resp then bindE (remote_report resp l s) (\<lambda>s1. Inr (True, s1))
          else
            let s1 = put l (obj\<lparr>impl := RemoteLookup
                                  (r\<lparr>connection := Some \<lparr>peer = a, original = resp\<rparr>\<rparr>)\<rparr>) s
            in bindE (remote_unsubscribe l s1)
                 (\<lambda>s2. bindE (deref_remote s2 l)
                    (\<lambda>(obj2, r2).
                       Inr (True, put l (obj2\<lparr>impl := RemoteLookup (r2\<lparr>last := now\<rparr>)\<rparr>) s2))))"

text \<open>
  The TCP path, \<^verbatim>\<open>onReceived(Connection *connection, const Response &response)\<close>:
  \<^verbatim>\<open>if (_handler == nullptr) return; if (!_query.matches(response)) return; report(response);\<close>
\<close>

definition remote_onReceived_tcp :: "response \<Rightarrow> lid \<Rightarrow> core \<Rightarrow> core result" where
  "remote_onReceived_tcp resp l s =
     bindE (deref_remote s l)
       (\<lambda>(obj, r).
          if handler obj = None then Inr s
          else if \<not> matches (query obj) resp then Inr s
          else remote_report resp l s)"

text \<open>\<^verbatim>\<open>if (_handler == nullptr) return; cleanup()->onReceived(this, truncated);\<close>\<close>

definition remote_onFailure :: "response \<Rightarrow> lid \<Rightarrow> core \<Rightarrow> core result" where
  "remote_onFailure trunc l s =
     bindE (deref_remote s l)
       (\<lambda>(obj, r).
          if handler obj = None then Inr s
          else bindE (remote_cleanup l s) (\<lambda>(h, s1). invoke h l (OnReceived trunc) s1))"

text \<open>\<^verbatim>\<open>if (_handler == nullptr) return; cleanup()->onCancelled(this);\<close>\<close>

definition remote_cancel :: "lid \<Rightarrow> core \<Rightarrow> core result" where
  "remote_cancel l s =
     bindE (deref_remote s l)
       (\<lambda>(obj, r).
          if handler obj = None then Inr s
          else bindE (remote_cleanup l s) (\<lambda>(h, s1). invoke h l OnCancelled s1))"

text \<open>The destructor, \<^verbatim>\<open>cleanup();\<close>, after which the object is gone.\<close>

definition free :: "lid \<Rightarrow> core \<Rightarrow> core" where
  "free l s = s\<lparr>objects := (objects s)(l := None)\<rparr>"

definition remote_destroy :: "lid \<Rightarrow> core \<Rightarrow> core result" where
  "remote_destroy l s = bindE (remote_cleanup l s) (\<lambda>(h, s1). Inr (free l s1))"

section \<open>LocalLookup (\<^verbatim>\<open>src/locallookup.h\<close>)\<close>

text \<open>
  Modelled from the spec: \<^verbatim>\<open>Hosts::notify\<close> is not among the sources. It synthesizes the
  response for the name from \<^verbatim>\<open>/etc/hosts\<close> and delivers it to the handler it is given.
\<close>

definition local_response :: "query \<Rightarrow> string list option \<Rightarrow> response" where
  "local_response q found =
     \<lparr>rid = qid q, rname = qname q, rbits = qbits q, rcode = ns_r_noerror,
      truncated = False, answers = (case found of None \<Rightarrow> [] | Some records \<Rightarrow> records)\<rparr>"

definition hosts_notify :: "query \<Rightarrow> hid option \<Rightarrow> lid \<Rightarrow> core \<Rightarrow> core result" where
  "hosts_notify q h l s = invoke h l (OnReceived (local_response q (hosts s (qname q)))) s"

text \<open>
  \<^verbatim>\<open>if (_ready) return false; _timestamp = now;\<close>
  \<^verbatim>\<open>_hosts.notify(Request(this), _handler, this); _ready = true; return false;\<close>
\<close>

definition local_execute :: "real \<Rightarrow> lid \<Rightarrow> core \<Rightarrow> (bool \<times> core) result" where
  "local_execute now l s =
     bindE (deref_local s l)
       (\<lambda>(obj, k).
          if is_ready k then Inr (False, s)
          else
            let s1 = put l (obj\<lparr>impl := LocalLookup (k\<lparr>timestamp := now\<rparr>)\<rparr>) s
            in bindE (hosts_notify (query obj) (handler obj) l s1)
                 (\<lambda>s2. bindE (deref_local s2 l)
                    (\<lambda>(obj2, k2).
                       Inr (False, put l (obj2\<lparr>impl := LocalLookup (k2\<lparr>is_ready := True\<rparr>)\<rparr>) s2))))"

text \<open>\<^verbatim>\<open>return 1;\<close>\<close>

definition local_credits :: nat where
  "local_credits = 1"

text \<open>
  \<^verbatim>\<open>if (_handler == nullptr) return; auto *handler = _handler; _handler = nullptr;\<close>
  \<^verbatim>\<open>handler->onCancelled(this);\<close>
\<close>

definition local_cancel :: "lid \<Rightarrow> core \<Rightarrow> core result" where
  "local_cancel l s =
     bindE (deref_local s l)
       (\<lambda>(obj, k).
          if handler obj = None then Inr s
          else invoke (handler obj) l OnCancelled (put l (obj\<lparr>handler := None\<rparr>) s))"

text \<open>The destructor: \<^verbatim>\<open>if (!_ready) _handler->onCancelled(this);\<close>\<close>

definition local_destroy :: "lid \<Rightarrow> core \<Rightarrow> core result" where
  "local_destroy l s =
     bindE (deref_local s l)
       (\<lambda>(obj, k).
          if \<not> is_ready k
          then bindE (invoke (handler obj) l OnCancelled s) (\<lambda>s1. Inr (free l s1))
          else Inr (free l s))"

section \<open>The virtual methods of \<^verbatim>\<open>Lookup\<close> (\<^verbatim>\<open>include/dnscpp/lookup.h\<close>)\<close>

definition lookup_execute :: "(ip \<Rightarrow> bool) \<Rightarrow> real \<Rightarrow> lid \<Rightarrow> core \<Rightarrow> (bool \<times> core) result" where
  "lookup_execute sendable now l s =
     bindE (deref s l)
       (\<lambda>obj. case impl obj of
                 RemoteLookup r \<Rightarrow> remote_execute sendable now l s
               | LocalLookup k \<Rightarrow> local_execute now l s)"

definition lookup_credits :: "core \<Rightarrow> lid \<Rightarrow> nat result" where
  "lookup_credits s l =
     bindE (deref s l)
       (\<lambda>obj. case impl obj of
                 RemoteLookup r \<Rightarrow> remote_credits s r
               | LocalLookup k \<Rightarrow> Inr local_credits)"

definition lookup_timestamp :: "core \<Rightarrow> lid \<Rightarrow> real result" where
  "lookup_timestamp s l =
     bindE (deref s l)
       (\<lambda>obj. case impl obj of
                 RemoteLookup r \<Rightarrow> Inr (last r)
               | LocalLookup k \<Rightarrow> Inr (timestamp k))"

definition lookup_cancel :: "lid \<Rightarrow> core \<Rightarrow> core result" where
  "lookup_cancel l s =
     bindE (deref s l)
       (\<lambda>obj. case impl obj of
                 RemoteLookup r \<Rightarrow> remote_cancel l s
               | LocalLookup k \<Rightarrow> local_cancel l s)"

definition lookup_destroy :: "lid \<Rightarrow> core \<Rightarrow> core result" where
  "lookup_destroy l s =
     bindE (deref s l)
       (\<lambda>obj. case impl obj of
                 RemoteLookup r \<Rightarrow> remote_destroy l s
               | LocalLookup k \<Rightarrow> local_destroy l s)"

text \<open>A shared pointer goes out of scope: the object is destroyed with its last owner.\<close>

definition release :: "lid \<Rightarrow> core \<Rightarrow> core result" where
  "release l s = (if owned s l then Inr s else lookup_destroy l s)"


section \<open>The tick: \<^verbatim>\<open>Core::expire\<close> (\<^verbatim>\<open>src/core.cpp\<close>)\<close>

subsection \<open>Step 1: the buffered responses\<close>

text \<open>
  Modelled from the spec: \<^verbatim>\<open>deliver(max)\<close> of a socket set is not among the sources. It
  pops up to \<open>max\<close> buffered responses, hands each to the lookups subscribed to its
  peer and id through \<^verbatim>\<open>onReceived\<close>, and returns how many it has consumed. When the
  socket becomes readable, the responses are appended to the buffer and the core is
  told through \<^verbatim>\<open>onBuffered\<close>.
\<close>

definition subscribers :: "udps \<Rightarrow> ip \<Rightarrow> 16 word \<Rightarrow> lid list" where
  "subscribers u a i = map fst (filter (\<lambda>sub. fst (snd sub) = a \<and> snd (snd sub) = i) (subscribed u))"

fun deliver_to :: "real \<Rightarrow> ip \<Rightarrow> response \<Rightarrow> lid list \<Rightarrow> core \<Rightarrow> core result" where
  "deliver_to now a resp [] s = Inr s"
| "deliver_to now a resp (l # ls) s =
     bindE (remote_onReceived now a resp l s) (\<lambda>(processed, s1). deliver_to now a resp ls s1)"

fun deliver_all :: "inbound \<Rightarrow> real \<Rightarrow> (ip \<times> response) list \<Rightarrow> core \<Rightarrow> core result" where
  "deliver_all v now [] s = Inr s"
| "deliver_all v now ((a, resp) # rest) s =
     bindE (deliver_to now a resp (subscribers (udps_of v s) a (rid resp)) s)
       (deliver_all v now rest)"

definition udps_deliver :: "inbound \<Rightarrow> nat \<Rightarrow> real \<Rightarrow> core \<Rightarrow> (nat \<times> core) result" where
  "udps_deliver v maxcalls now s =
     (let u = udps_of v s;
          taken = take maxcalls (buffer u);
          s1 = set_udps v (u\<lparr>buffer := drop maxcalls (buffer u)\<rparr>) s
      in bindE (deliver_all v now taken s1) (\<lambda>s2. Inr (length taken, s2)))"

definition udps_notify :: "inbound \<Rightarrow> ip \<Rightarrow> response \<Rightarrow> core \<Rightarrow> core" where
  "udps_notify v a resp s =
     core_onBuffered
       (set_udps v ((udps_of v s)\<lparr>buffer := buffer (udps_of v s) @ [(a, resp)]\<rparr>) s)"

subsection \<open>Step 2: the ready lookups\<close>

text \<open>
  \<^verbatim>\<open>for (size_t i = 0, end = std::min(maxcalls, _ready.size()); i != end; ++i) _ready.pop();\<close>
  The shared pointer that \<^verbatim>\<open>pop\<close> returns is dropped at once.
\<close>

definition pop_ready :: "core \<Rightarrow> core result" where
  "pop_ready s = bindE (queue_pop (ready s)) (\<lambda>(l, q). release l (s\<lparr>ready := q\<rparr>))"

fun drain_ready :: "nat \<Rightarrow> core \<Rightarrow> core result" where
  "drain_ready 0 s = Inr s"
| "drain_ready (Suc n) s = bindE (pop_ready s) (drain_ready n)"

definition expire_head :: "real \<Rightarrow> core \<Rightarrow> core result" where
  "expire_head now s =
     bindE (udps_deliver V4 8 now s)
       (\<lambda>(n4, s1). bindE (udps_deliver V6 (8 - n4) now s1)
          (\<lambda>(n6, s2). drain_ready (min (8 - n4 - n6) (unat (queue_size (ready s2)))) s2))"

subsection \<open>Step 3: the scheduled lookups\<close>

text \<open>
  The body of the loop:
  \<^verbatim>\<open>auto lookup = _scheduled.pop();\<close>
  \<^verbatim>\<open>if (lookup->execute(now)) _lookups.push(lookup);\<close>
  \<^verbatim>\<open>else if (lookup->credits()) _scheduled.push(lookup);\<close>
  \<^verbatim>\<open>else _ready.push(lookup);\<close>
\<close>

definition start_one :: "(ip \<Rightarrow> bool) \<Rightarrow> real \<Rightarrow> core \<Rightarrow> core result" where
  "start_one sendable now s =
     bindE (queue_pop (scheduled s))
       (\<lambda>(l, q). bindE (lookup_execute sendable now l (s\<lparr>scheduled := q\<rparr>))
          (\<lambda>(executed, s1).
             if executed then push_lookups l s1
             else bindE (lookup_credits s1 l)
                    (\<lambda>c. if c \<noteq> 0 then push_scheduled l s1 else push_ready l s1)))"

text \<open>
  \<^verbatim>\<open>while (_lookups.size() < _capacity && !_scheduled.empty()) { ... }\<close>
  Nothing bounds the number of rounds: the loop is a partial function, and \<open>None\<close>
  is the run that never leaves it.
\<close>

partial_function (option) start_scheduled :: "(ip \<Rightarrow> bool) \<Rightarrow> real \<Rightarrow> core \<Rightarrow> core result option" where
  "start_scheduled sendable now s =
     (if queue_size (lookups s) < capacity s \<and> \<not> queue_empty (scheduled s)
      then (case start_one sendable now s of
              Inl e \<Rightarrow> Some (Inl e)
            | Inr s1 \<Rightarrow> start_scheduled sendable now s1)
      else Some (Inr s))"

declare start_scheduled.simps [code]

subsection \<open>Step 4: the lookups that timed out\<close>

text \<open>
  The body of the loop:
  \<^verbatim>\<open>auto lookup = _lookups.pop();\<close>
  \<^verbatim>\<open>if (lookup->credits()) _scheduled.push(lookup); else _ready.push(lookup);\<close>
\<close>

definition timeout_one :: "core \<Rightarrow> core result" where
  "timeout_one s =
     bindE (queue_pop (lookups s))
       (\<lambda>(l, q). bindE (lookup_credits (s\<lparr>lookups := q\<rparr>) l)
          (\<lambda>c. if c \<noteq> 0 then push_scheduled l (s\<lparr>lookups := q\<rparr>)
                else push_ready l (s\<lparr>lookups := q\<rparr>)))"

text \<open>The test of the loop: \<^verbatim>\<open>!_lookups.empty() && _lookups.front()->timestamp() <= timeouttime\<close>.\<close>

definition front_timed_out :: "real \<Rightarrow> core \<Rightarrow> bool result" where
  "front_timed_out timeouttime s =
     (if queue_empty (lookups s) then Inr False
      else bindE (queue_front (lookups s))
             (\<lambda>l. bindE (lookup_timestamp s l) (\<lambda>ts. Inr (ts \<le> timeouttime))))"


lemma queue_push_container:
  "queue_push l q h = Inr (q', h') \<Longrightarrow>
     container q' = container q @ [(next_node q, l)] \<and> ident q' = ident q \<and>
     next_node q' = Suc (next_node q)"
  by (auto simp: queue_push_def split: option.splits)

lemma timeout_one_shrinks:
  "timeout_one s = Inr s1 \<Longrightarrow> length (container (lookups s1)) < length (container (lookups s))"
  by (auto simp: timeout_one_def bindE_def queue_pop_def push_scheduled_def push_ready_def
      split: sum.splits list.splits prod.splits if_splits dest!: queue_push_container)

text \<open>
  \<^verbatim>\<open>while (!_lookups.empty() && _lookups.front()->timestamp() <= timeouttime) { ... }\<close>
  Every round takes one node out of the chain of \<^verbatim>\<open>_lookups\<close> and puts none in.
\<close>

function timeout_pass :: "real \<Rightarrow> core \<Rightarrow> core result" where
  "timeout_pass timeouttime s =
     (case front_timed_out timeouttime s of
        Inl e \<Rightarrow> Inl e
      | Inr expired \<Rightarrow>
          if expired
          then (case timeout_one s of
                  Inl e \<Rightarrow> Inl e
                | Inr s1 \<Rightarrow> timeout_pass timeouttime s1)
          else Inr s)"
  by pat_completeness auto
termination
  by (relation "measure (\<lambda>(timeouttime, s). length (container (lookups s)))")
     (auto dest: timeout_one_shrinks)

declare timeout_pass.simps [simp del]

subsection \<open>Step 5: the timer\<close>

text \<open>
  \<^verbatim>\<open>if (!_ready.empty()) _timer = _loop->timer(0.0, this);\<close>
  \<^verbatim>\<open>else if (!_lookups.empty()) {\<close>
  \<^verbatim>\<open>const double earliest = _lookups.front()->timestamp() + _timeout - now;\<close>
  \<^verbatim>\<open>_timer = _loop->timer(std::max(0.0, earliest), this); }\<close>
  \<^verbatim>\<open>else assert(_scheduled.empty());\<close>
\<close>

definition rearm :: "real \<Rightarrow> core \<Rightarrow> core result" where
  "rearm now s =
     (if \<not> queue_empty (ready s) then Inr (s\<lparr>timer := Some 0\<rparr>)
      else if \<not> queue_empty (lookups s)
      then bindE (queue_front (lookups s))
             (\<lambda>l. bindE (lookup_timestamp s l)
                (\<lambda>ts. Inr (s\<lparr>timer := Some (max 0 (ts + timeout s - now))\<rparr>)))
      else if queue_empty (scheduled s) then Inr s
      else Inl AssertionFailed)"

subsection \<open>The whole tick\<close>

text \<open>
  \<^verbatim>\<open>_loop->cancel(_timer, this); _timer = nullptr;\<close>, the clock is read into \<open>now\<close>, and
  the five steps follow. The user's handlers only record their calls here, so the
  watcher of the source stays valid throughout.
\<close>

definition core_expire :: "(ip \<Rightarrow> bool) \<Rightarrow> real \<Rightarrow> core \<Rightarrow> core result option" where
  "core_expire sendable now s =
     (case expire_head now (s\<lparr>timer := None\<rparr>) of
        Inl e \<Rightarrow> Some (Inl e)
      | Inr s1 \<Rightarrow>
          (case start_scheduled sendable now s1 of
             None \<Rightarrow> None
           | Some (Inl e) \<Rightarrow> Some (Inl e)
           | Some (Inr s2) \<Rightarrow> Some (bindE (timeout_pass (now - timeout s2) s2) (rearm now))))"

section \<open>Construction\<close>

definition new_queue :: "nat \<Rightarrow> queue" where
  "new_queue i = \<lparr>ident = i, container = [], next_node = 0, node_count = 0\<rparr>"

definition new_udps :: udps where
  "new_udps = \<lparr>buffer = [], subscribed = []\<rparr>"

text \<open>A core with its settings and no lookup yet.\<close>

definition new_core ::
  "ip list \<Rightarrow> 64 word \<Rightarrow> nat \<Rightarrow> real \<Rightarrow> bool \<Rightarrow> (string \<Rightarrow> string list option) \<Rightarrow> core" where
  "new_core ns cap att tmo rot hs =
     \<lparr>nameservers = ns, scheduled = new_queue 0, lookups = new_queue 1, ready = new_queue 2,
      capacity = cap, attempts = att, timeout = tmo, rotate = rot, timer = None, hosts = hs,
      ipv4 = new_udps, ipv6 = new_udps, objects = (\<lambda>l. None), next_lid = 0,
      events = [], datagrams = []\<rparr>"

text \<open>\<^verbatim>\<open>std::numeric_limits<double>::max()\<close>\<close>

definition dbl_max :: real where
  "dbl_max = 2 ^ 1024 - 2 ^ 971"

text \<open>
  Modelled from the spec: the initial values of the fields of a \<^verbatim>\<open>RemoteLookup\<close> are in
  \<^verbatim>\<open>remotelookup.h\<close>, which is not among the sources. It has made no attempt, and the time
  of its last send, infinitely far ahead in the spec, is the largest \<^verbatim>\<open>double\<close>.
\<close>

definition new_remote :: "hid \<Rightarrow> query \<Rightarrow> nat \<Rightarrow> lookup" where
  "new_remote h q i =
     \<lparr>handler = Some h, query = q, position = None,
      impl = RemoteLookup \<lparr>count = 0, last = dbl_max, rand_id = i, subscriptions = [],
                           connection = None\<rparr>\<rparr>"

text \<open>A \<^verbatim>\<open>LocalLookup\<close> starts with \<^verbatim>\<open>_ready = false\<close> and the largest \<^verbatim>\<open>double\<close> as its
  timestamp.\<close>

definition new_local :: "hid \<Rightarrow> query \<Rightarrow> lookup" where
  "new_local h q =
     \<lparr>handler = Some h, query = q, position = None,
      impl = LocalLookup \<lparr>is_ready = False, timestamp = dbl_max\<rparr>\<rparr>"


section \<open>Properties of the queue\<close>

text \<open>
  A new queue has the invariant, and the three operations keep it: it holds of every
  queue of a core.
\<close>

text \<open>Erasing a node by its number takes exactly that node out of a list whose node
  numbers are pairwise different.\<close>

lemma erase_split:
  assumes "distinct (map fst (before @ (n, L) # after))"
  shows "filter (\<lambda>node. fst node \<noteq> n) (before @ (n, L) # after) = before @ after"
proof -
  have "\<forall>x \<in> set before. fst x \<noteq> n" "\<forall>x \<in> set after. fst x \<noteq> n"
    using assms by force+
  then show ?thesis by simp
qed

lemma queue_push_inv:
  "queue_inv q \<Longrightarrow> queue_push item q h = Inr (q', h') \<Longrightarrow> queue_inv q'"
  by (fastforce simp: queue_inv_def queue_push_def list_all_iff less_Suc_eq split: option.splits)

lemma queue_inv_new: "queue_inv (new_queue i)"
  by (simp add: queue_inv_def new_queue_def)

lemma queue_pop_inv: "queue_inv q \<Longrightarrow> queue_pop q = Inr (x, q') \<Longrightarrow> queue_inv q'"
  by (auto simp: queue_inv_def queue_pop_def split: list.splits)

lemma queue_pop_item_inv:
  "queue_inv q \<Longrightarrow> queue_pop_item item q h = Inr (front, q') \<Longrightarrow> queue_inv q'"
  by (fastforce simp: queue_inv_def queue_pop_item_def erase_def unhook_def list_all_iff
        distinct_map_filter
      split: option.splits if_splits)

text \<open>
  \<^verbatim>\<open>pop(item)\<close> of an item whose position is not a node of the queue: the chain stays as
  it is, one is subtracted from the node count, and the answer is false.
\<close>

lemma unhook_elsewhere: "\<not> valid_in q it \<Longrightarrow> unhook it q = q"
proof -
  assume "\<not> valid_in q it"
  then have "filter (\<lambda>node. (ident q, fst node) \<noteq> it) (container q) = container q"
    by (force simp: valid_in_def filter_id_conv)
  then show ?thesis by (simp add: unhook_def)
qed

lemma queue_pop_item_elsewhere:
  assumes "h item = Some l" and "position l = Some it" and "\<not> valid_in q it"
  shows "queue_pop_item item q h = Inr (False, q\<lparr>node_count := node_count q - 1\<rparr>)"
proof -
  have "\<not> at_begin q it"
    using assms(3) by (auto simp: at_begin_def valid_in_def split: list.splits)
  then show ?thesis
    using assms by (simp add: queue_pop_item_def erase_def unhook_elsewhere)
qed

text \<open>
  C9. Let \<open>L\<close> be a lookup in a queue \<open>q\<close>, its stored position the node that holds
  it. Then \<^verbatim>\<open>push(item)\<close> appends \<open>item\<close> at the back and stamps its position with the
  new node, a valid iterator of the queue; \<^verbatim>\<open>pop()\<close> removes and returns the front
  element; \<^verbatim>\<open>pop(L)\<close> removes exactly the node of \<open>L\<close>, all other elements keep their order,
  and it returns true if and only if \<open>L\<close> was the front of the queue.
\<close>

theorem queue_contract:
  assumes inv: "queue_inv q"
    and inq: "container q = before @ (n, L) # after"
    and obj: "h L = Some l" and pos: "position l = Some (ident q, n)"
    and new: "h item = Some k"
  shows "(\<exists>q' h' m. queue_push item q h = Inr (q', h') \<and>
            container q' = container q @ [(m, item)] \<and>
            map_option position (h' item) = Some (Some (ident q, m)) \<and>
            valid_in q' (ident q, m) \<and>
            queue_inv q') \<and>
         (\<exists>q'. queue_pop q = Inr (snd (hd (container q)), q') \<and>
            container q' = tl (container q)) \<and>
         (\<exists>q'. queue_pop_item L q h = Inr (before = [], q') \<and>
            container q' = before @ after)"
proof (intro conjI)
  obtain q' h' where p: "queue_push item q h = Inr (q', h')"
    using new by (auto simp: queue_push_def)
  have "queue_inv q'" using inv p by (rule queue_push_inv)
  moreover have "container q' = container q @ [(next_node q, item)]"
    "map_option position (h' item) = Some (Some (ident q, next_node q))"
    "valid_in q' (ident q, next_node q)"
    using p new by (auto simp: queue_push_def valid_in_def)
  ultimately show "\<exists>q' h' m. queue_push item q h = Inr (q', h') \<and>
               container q' = container q @ [(m, item)] \<and>
               map_option position (h' item) = Some (Some (ident q, m)) \<and>
            valid_in q' (ident q, m) \<and>
               queue_inv q'"
    using p by blast
next
  show "\<exists>q'. queue_pop q = Inr (snd (hd (container q)), q') \<and> container q' = tl (container q)"
    using inq by (cases before) (auto simp: queue_pop_def)
next
  have d: "distinct (map fst (before @ (n, L) # after))"
    using inv inq by (simp add: queue_inv_def)
  have front: "at_begin q (ident q, n) = (before = [])"
  proof (cases before)
    case Nil
    then show ?thesis using inq by (simp add: at_begin_def)
  next
    case (Cons b bs)
    then have "fst b \<noteq> n" using d by auto
    then show ?thesis using inq Cons by (auto simp: at_begin_def split: prod.splits)
  qed
  have "container (erase q (ident q, n)) = before @ after"
    using inq erase_split[OF d] by (simp add: erase_def unhook_def)
  then show "\<exists>q'. queue_pop_item L q h = Inr (before = [], q') \<and>
               container q' = before @ after"
    using obj pos front by (simp add: queue_pop_item_def)
qed

text \<open>The contract at a queue of three lookups, the middle one popped by its position.\<close>

definition qw :: queue where
  "qw = \<lparr>ident = 1, container = [(0, 10), (1, 11), (2, 12)], next_node = 3, node_count = 3\<rparr>"

definition hw :: heap where
  "hw = (\<lambda>l. if l \<in> {10, 11, 12, 13}
             then Some \<lparr>handler = None, query = \<lparr>qid = 0, qname = [], qbits = 0\<rparr>,
                        position = (if l = 13 then None else Some (1, l - 10)),
                        impl = LocalLookup \<lparr>is_ready = False, timestamp = 0\<rparr>\<rparr>
             else None)"

theorem queue_contract_witness:
  "queue_inv qw \<and>
   (\<exists>q' h' m. queue_push 13 qw hw = Inr (q', h') \<and>
      container q' = [(0, 10), (1, 11), (2, 12), (m, 13)] \<and>
      map_option position (h' 13) = Some (Some (1, m))) \<and>
   (\<exists>q'. queue_pop qw = Inr (10, q') \<and> container q' = [(1, 11), (2, 12)]) \<and>
   (\<exists>q'. queue_pop_item 11 qw hw = Inr (False, q') \<and> container q' = [(0, 10), (2, 12)])"
proof -
  have inv: "queue_inv qw" by (simp add: queue_inv_def qw_def)
  have inq: "container qw = [(0, 10)] @ (1, 11) # [(2, 12)]" by (simp add: qw_def)
  have obj: "hw 11 = Some (the (hw 11))" and new: "hw 13 = Some (the (hw 13))"
    by (simp_all add: hw_def)
  have pos: "position (the (hw 11)) = Some (ident qw, 1)" by (simp add: hw_def qw_def)
  show ?thesis
    using inv queue_contract [OF inv inq obj pos new] by (auto simp: qw_def)
qed


section \<open>Properties of the lookups\<close>

definition example_query :: query where
  "example_query = \<lparr>qid = 5, qname = ''example.com'', qbits = 0\<rparr>"

definition second_query :: query where
  "second_query = \<lparr>qid = 6, qname = ''example.org'', qbits = 0\<rparr>"

definition nameserver1 :: ip where
  "nameserver1 = \<lparr>version = 4, address = 1\<rparr>"

definition nameserver2 :: ip where
  "nameserver2 = \<lparr>version = 4, address = 2\<rparr>"

subsection \<open>LocalLookup: cancel, then the destructor\<close>

text \<open>
  C10. A \<^verbatim>\<open>LocalLookup\<close> that has not executed (\<^verbatim>\<open>_ready\<close> is false) and has a handler is
  cancelled: \<^verbatim>\<open>cancel()\<close> reports \<^verbatim>\<open>onCancelled\<close> and leaves the handler null. When the
  lookup is destroyed afterwards, the destructor takes the branch \<^verbatim>\<open>if (!_ready)\<close> and
  calls \<^verbatim>\<open>onCancelled\<close> through the null handler: nothing guards that call.
\<close>

theorem local_cancel_then_destroy:
  assumes "objects s l = Some obj" and "impl obj = LocalLookup k"
    and "\<not> is_ready k" and "handler obj = Some h"
  shows "\<exists>s1. local_cancel l s = Inr s1 \<and>
           events s1 = events s @ [(h, l, OnCancelled)] \<and>
           map_option handler (objects s1 l) = Some None \<and>
           local_destroy l s1 = Inl NullPointer \<and>
           lookup_destroy l s1 = Inl NullPointer"
  using assms
  by (simp add: local_cancel_def local_destroy_def lookup_destroy_def deref_local_def deref_def
        bindE_def invoke_def put_def)

definition fresh_local :: core where
  "fresh_local =
     put 0 (new_local 7 example_query) (new_core [nameserver1] 10 1 3 False (\<lambda>name. None))"

theorem local_cancel_then_destroy_witness:
  "\<exists>s1. local_cancel 0 fresh_local = Inr s1 \<and>
      events s1 = [(7, 0, OnCancelled)] \<and>
      local_destroy 0 s1 = Inl NullPointer"
proof -
  have "objects fresh_local 0 = Some (new_local 7 example_query)"
    by (simp add: fresh_local_def put_def)
  moreover have "impl (new_local 7 example_query) =
      LocalLookup \<lparr>is_ready = False, timestamp = dbl_max\<rparr>"
    by (simp add: new_local_def)
  moreover have "\<not> is_ready \<lparr>is_ready = False, timestamp = dbl_max\<rparr>" by simp
  moreover have "handler (new_local 7 example_query) = Some 7" by (simp add: new_local_def)
  ultimately show ?thesis
    using local_cancel_then_destroy [of fresh_local 0 "new_local 7 example_query" _ 7]
    by (auto simp: fresh_local_def new_core_def put_def)
qed

subsection \<open>RemoteLookup: execute\<close>

text \<open>
  With at least one nameserver, every \<^verbatim>\<open>execute(now)\<close> of a \<^verbatim>\<open>RemoteLookup\<close> hands
  one datagram for the nameserver of index \<open>(count + id) mod N\<close> (with \<^verbatim>\<open>rotate\<close>) or
  \<open>count mod N\<close> (without) to the core, adds one to \<open>count\<close>, sets the time of the last
  send to \<open>now\<close> and returns true, whatever the outcome of the send. When the send yields
  a socket, the subscription to it is added; when it fails, the subscriptions and the
  sockets stay as they were.
\<close>

lemma remote_execute_contract:
  assumes "objects s l = Some obj" and "impl obj = RemoteLookup r" and "nameservers s \<noteq> []"
  shows "\<exists>s' obj' r' ns.
           remote_execute sendable now l s = Inr (True, s') \<and>
           lookup_execute sendable now l s = Inr (True, s') \<and>
           ns = nameservers s !
                  (if rotate s then (count r + rand_id r) mod length (nameservers s)
                   else count r mod length (nameservers s)) \<and>
           datagrams s' = datagrams s @ [(ns, query obj)] \<and>
           objects s' l = Some obj' \<and> impl obj' = RemoteLookup r' \<and>
           count r' = count r + 1 \<and> last r' = now \<and> rand_id r' = rand_id r \<and>
           (if (version ns = 4 \<or> version ns = 6) \<and> sendable ns
            then subscriptions r' =
                   List.insert (if version ns = 4 then V4 else V6, ns) (subscriptions r)
            else subscriptions r' = subscriptions r \<and>
                 ipv4 s' = ipv4 s \<and> ipv6 s' = ipv6 s)"
  using assms
  by (auto simp: remote_execute_def lookup_execute_def deref_remote_def deref_def bindE_def
        nameserver_index_def core_datagram_def put_def set_udps_def Let_def)


text \<open>The second attempt of a lookup with two nameservers and \<^verbatim>\<open>rotate\<close>, the send failing.\<close>

definition second_attempt :: core where
  "second_attempt =
     (new_core [nameserver1, nameserver2] 10 3 3 True (\<lambda>name. None))
       \<lparr>objects := (\<lambda>l. if l = 0
                        then Some \<lparr>handler = Some 7, query = example_query, position = None,
                                   impl = RemoteLookup \<lparr>count = 1, last = 0, rand_id = 4,
                                                        subscriptions = [], connection = None\<rparr>\<rparr>
                        else None),
        next_lid := 1\<rparr>"

lemma remote_execute_at_second_attempt:
  "\<exists>s' obj' r'.
      remote_execute (\<lambda>a. False) 9 0 second_attempt = Inr (True, s') \<and>
      datagrams s' = [(nameserver2, example_query)] \<and>
      objects s' 0 = Some obj' \<and> impl obj' = RemoteLookup r' \<and>
      count r' = 2 \<and> last r' = 9 \<and> subscriptions r' = []"
proof -
  let ?r = "\<lparr>count = 1, last = 0, rand_id = 4, subscriptions = [], connection = None\<rparr>"
  let ?obj = "\<lparr>handler = Some 7, query = example_query, position = None, impl = RemoteLookup ?r\<rparr>"
  have obj: "objects second_attempt 0 = Some ?obj" by (simp add: second_attempt_def)
  have r: "impl ?obj = RemoteLookup ?r" by simp
  have ns: "nameservers second_attempt \<noteq> []" by (simp add: second_attempt_def new_core_def)
  have idx: "[nameserver1, nameserver2] ! (5 mod Suc (Suc 0)) = nameserver2"
    by (simp add: mod_Suc eval_nat_numeral)
  show ?thesis
    using remote_execute_contract [OF obj r ns, of "\<lambda>a. False" 9]
    by (auto simp: second_attempt_def new_core_def idx)
qed

subsection \<open>RemoteLookup: cleanup and report\<close>

text \<open>Unsubscribing touches the two socket sets only.\<close>

lemma unsubscribe_each_frame:
  "\<exists>u4 u6. unsubscribe_each l i subs s = s\<lparr>ipv4 := u4, ipv6 := u6\<rparr>"
proof (induction subs arbitrary: s)
  case Nil
  have "s = s\<lparr>ipv4 := ipv4 s, ipv6 := ipv6 s\<rparr>" by simp
  then show ?case by (metis unsubscribe_each.simps(1))
next
  case (Cons p subs)
  obtain v a where p: "p = (v, a)" by (cases p)
  let ?s1 = "set_udps v (udps_unsubscribe l a i (udps_of v s)) s"
  from Cons.IH[of ?s1] obtain u4 u6 where
    "unsubscribe_each l i subs ?s1 = ?s1\<lparr>ipv4 := u4, ipv6 := u6\<rparr>" by blast
  then have "unsubscribe_each l i (p # subs) s = s\<lparr>ipv4 := u4, ipv6 := u6\<rparr>"
    using p by (cases v) (simp_all add: set_udps_def)
  then show ?case by blast
qed



text \<open>What \<^verbatim>\<open>Core::done\<close> and \<^verbatim>\<open>cleanup()\<close> do to the lookup and to the calls recorded.\<close>

lemma bindE_simps:
  "bindE (Inr x) f = f x" "bindE (Inl e) f = Inl e"
  by (simp_all add: bindE_def)

lemma core_done_effect:
  assumes "core_done l s = Inr s1" and "objects s l = Some obj"
  shows "events s1 = events s \<and>
         (\<exists>pos. objects s1 l = Some (obj\<lparr>position := pos\<rparr>))"
  using assms
  by (auto simp: core_done_def unlink_def bindE_def queue_pop_item_def push_ready_def
        queue_push_def
      split: sum.splits option.splits if_splits prod.splits)

lemma remote_cleanup_effect:
  assumes c: "remote_cleanup l s = Inr (h', s1)"
    and o: "objects s l = Some obj" and r: "impl obj = RemoteLookup r"
  shows "h' = handler obj \<and> events s1 = events s \<and>
         (\<exists>pos. objects s1 l =
            Some (obj\<lparr>handler := None, position := pos,
                     impl := RemoteLookup (r\<lparr>connection := None, subscriptions := []\<rparr>)\<rparr>))"
proof -
  let ?obj1 = "obj\<lparr>handler := None, impl := RemoteLookup (r\<lparr>connection := None\<rparr>)\<rparr>"
  let ?obj2 = "obj\<lparr>handler := None, impl := RemoteLookup (r\<lparr>connection := None, subscriptions := []\<rparr>)\<rparr>"
  let ?s1 = "put l ?obj1 s"
  obtain u4 u6 where u: "unsubscribe_each l (qid (query obj)) (subscriptions r) ?s1
       = ?s1\<lparr>ipv4 := u4, ipv6 := u6\<rparr>"
    using unsubscribe_each_frame by blast
  let ?s2 = "put l ?obj2 (?s1\<lparr>ipv4 := u4, ipv6 := u6\<rparr>)"
  have un: "remote_unsubscribe l ?s1 = Inr ?s2"
    using u by (simp add: remote_unsubscribe_def deref_remote_def bindE_def put_def)
  have o2: "objects ?s2 l = Some ?obj2" and e2: "events ?s2 = events s"
    by (simp_all add: put_def)
  have step: "remote_cleanup l s =
      (if handler obj \<noteq> None
       then bindE (shared_from_this l ?s2) (\<lambda>p. bindE (core_done p ?s2) (\<lambda>s3. Inr (handler obj, s3)))
       else Inr (handler obj, ?s2))"
    using o r un by (simp add: remote_cleanup_def deref_remote_def Let_def bindE_simps)
  have h: "h' = handler obj" and rest: "s1 = ?s2 \<or> core_done l ?s2 = Inr s1"
  proof -
    show "h' = handler obj"
      using c unfolding step
      by (auto simp: bindE_def shared_from_this_def split: if_splits sum.splits)
    show "s1 = ?s2 \<or> core_done l ?s2 = Inr s1"
      using c unfolding step
      by (auto simp: bindE_def shared_from_this_def split: if_splits sum.splits)
  qed
  from rest show ?thesis
  proof
    assume eq: "s1 = ?s2"
    have "objects s1 l = Some (obj\<lparr>handler := None, position := position obj,
        impl := RemoteLookup (r\<lparr>connection := None, subscriptions := []\<rparr>)\<rparr>)"
      unfolding eq by (cases obj) (simp add: put_def)
    moreover have "events s1 = events s" unfolding eq by (simp add: put_def)
    ultimately show ?thesis using h by blast
  next
    assume "core_done l ?s2 = Inr s1"
    from core_done_effect[OF this o2] e2 obtain pos where
      ev: "events s1 = events s" and ob: "objects s1 l = Some (?obj2\<lparr>position := pos\<rparr>)" by auto
    have "objects s1 l = Some (obj\<lparr>handler := None, position := pos,
        impl := RemoteLookup (r\<lparr>connection := None, subscriptions := []\<rparr>)\<rparr>)"
      unfolding ob by (cases obj) simp
    then show ?thesis using h ev by blast
  qed
qed






section \<open>Runs of the scheduler\<close>

text \<open>
  A run is a core after \<^verbatim>\<open>add\<close> and some ticks: \<open>added\<close> starts it, \<open>then_expire\<close> lets
  the timer fire at a time. \<open>None\<close> is a tick that never returns, \<open>Inl\<close> an error that
  ended the run. \<open>observe\<close> shows of a run the lookups in \<^verbatim>\<open>_scheduled\<close>, \<^verbatim>\<open>_lookups\<close> and
  \<^verbatim>\<open>_ready\<close>, the timer and the calls made on the handlers.
\<close>

definition then_expire :: "(ip \<Rightarrow> bool) \<Rightarrow> real \<Rightarrow> core result option \<Rightarrow> core result option" where
  "then_expire sendable now m =
     (case m of Some (Inr s) \<Rightarrow> core_expire sendable now s | Some (Inl e) \<Rightarrow> Some (Inl e) | None \<Rightarrow> None)"

definition added :: "lookup \<Rightarrow> core \<Rightarrow> core result option" where
  "added obj s = Some (bindE (core_add obj s) (\<lambda>(l, s1). Inr s1))"

definition observe :: "core result option \<Rightarrow> (error + (lid list \<times> lid list \<times> lid list \<times> real option \<times> (hid \<times> lid \<times> callback) list)) option" where
  "observe m = map_option (map_sum id (\<lambda>s. (map snd (container (scheduled s)), map snd (container (lookups s)),
       map snd (container (ready s)), timer s, events s))) m"

text \<open>More steps of a run: another lookup is added, a response arrives on a socket, the
  user cancels a lookup; and \<open>probe\<close> shows of a run what a function reads off the state it
  ended in.\<close>

definition then_add :: "lookup \<Rightarrow> core result option \<Rightarrow> core result option" where
  "then_add obj m =
     (case m of
        Some (Inr s) \<Rightarrow> Some (bindE (core_add obj s) (\<lambda>(l, s1). Inr s1))
      | Some (Inl e) \<Rightarrow> Some (Inl e)
      | None \<Rightarrow> None)"

definition then_readable :: "inbound \<Rightarrow> ip \<Rightarrow> response \<Rightarrow> core result option \<Rightarrow> core result option" where
  "then_readable v a resp m = map_option (map_sum id (udps_notify v a resp)) m"

definition probe :: "(core \<Rightarrow> 'a) \<Rightarrow> core result option \<Rightarrow> (error + 'a) option" where
  "probe f m = map_option (map_sum id f) m"

definition then_cancel :: "lid \<Rightarrow> core result option \<Rightarrow> core result option" where
  "then_cancel l m =
     (case m of
        Some (Inr s) \<Rightarrow> Some (lookup_cancel l s)
      | Some (Inl e) \<Rightarrow> Some (Inl e)
      | None \<Rightarrow> None)"

subsection \<open>A LocalLookup in the loop of step 3\<close>

text \<open>
  A core whose only scheduled lookup is a \<^verbatim>\<open>LocalLookup\<close> that can execute (it is ready, or
  has a handler to report to), with room in \<^verbatim>\<open>_lookups\<close>.
\<close>

definition stuck_local :: "core \<Rightarrow> bool" where
  "stuck_local s =
     (\<exists>n l obj k. container (scheduled s) = [(n, l)] \<and> objects s l = Some obj \<and>
        impl obj = LocalLookup k \<and> (is_ready k \<or> handler obj \<noteq> None) \<and>
        queue_size (lookups s) < capacity s)"

text \<open>One round of the loop leaves such a core as it found it: \<^verbatim>\<open>execute\<close> returns false,
  \<^verbatim>\<open>credits()\<close> is 1, and the lookup is pushed onto \<^verbatim>\<open>_scheduled\<close> again.\<close>

lemma stuck_local_step:
  assumes "stuck_local s"
  shows "\<exists>s1. start_one sendable now s = Inr s1 \<and> stuck_local s1"
proof -
  from assms obtain n l obj k where
    c: "container (scheduled s) = [(n, l)]" and o: "objects s l = Some obj"
    and k: "impl obj = LocalLookup k" and h: "is_ready k \<or> handler obj \<noteq> None"
    and cap: "queue_size (lookups s) < capacity s"
    by (auto simp: stuck_local_def)
  show ?thesis
  proof (cases "is_ready k")
    case True
    then show ?thesis using c o k cap
      by (simp add: start_one_def queue_pop_def bindE_def lookup_execute_def deref_def
          local_execute_def deref_local_def lookup_credits_def local_credits_def
          push_scheduled_def queue_push_def stuck_local_def queue_size_def)
  next
    case False
    then obtain u where "handler obj = Some u" using h by auto
    then show ?thesis using c o k cap False
      by (simp add: start_one_def queue_pop_def bindE_def lookup_execute_def deref_def
          local_execute_def deref_local_def lookup_credits_def local_credits_def
          push_scheduled_def queue_push_def stuck_local_def queue_size_def
          hosts_notify_def invoke_def put_def)
  qed
qed

lemma stuck_local_loops:
  assumes "start_scheduled sendable now s = Some y"
  shows "\<not> stuck_local s"
proof (rule start_scheduled.raw_induct [where P = "\<lambda>sendable now s y. \<not> stuck_local s", OF _ assms])
  fix f :: "(ip \<Rightarrow> bool) \<Rightarrow> real \<Rightarrow> core \<Rightarrow> core result option"
  fix sendable now s y
  assume ih: "\<And>sendable now s y. f sendable now s = Some y \<Longrightarrow> \<not> stuck_local s"
  assume body: "(if queue_size (lookups s) < capacity s \<and> \<not> queue_empty (scheduled s)
      then case start_one sendable now s of Inl e \<Rightarrow> Some (Inl e)
           | Inr s1 \<Rightarrow> f sendable now s1
      else Some (Inr s)) = Some y"
  show "\<not> stuck_local s"
  proof
    assume st: "stuck_local s"
    then obtain s1 where s1: "start_one sendable now s = Inr s1" "stuck_local s1"
      using stuck_local_step by blast
    have "queue_size (lookups s) < capacity s \<and> \<not> queue_empty (scheduled s)"
      using st by (auto simp: stuck_local_def queue_empty_def)
    then have "f sendable now s1 = Some y" using body s1 by simp
    then have "\<not> stuck_local s1" by (rule ih)
    then show False using s1 by simp
  qed
qed

lemma stuck_local_never_returns: "stuck_local s \<Longrightarrow> start_scheduled sendable now s = None"
  using stuck_local_loops by (cases "start_scheduled sendable now s") auto

definition one_slot :: core where
  "one_slot = new_core [nameserver1] 1 1 3 False (\<lambda>name. Some [''127.0.0.1''])"

text \<open>A core of capacity 1 with a \<^verbatim>\<open>LocalLookup\<close> and, added after it, a \<^verbatim>\<open>RemoteLookup\<close>, after
  its first tick.\<close>

definition crowded :: "core result option" where
  "crowded =
     then_expire (\<lambda>a. True) 0
       (then_add (new_remote 8 second_query 1)
          (added (new_local 7 example_query) one_slot))"

text \<open>
  C2 says that the tick that starts a \<^verbatim>\<open>LocalLookup\<close> puts it into \<^verbatim>\<open>_ready\<close> and that the
  loop of step 3 ends. The source does neither. On a core with one \<^verbatim>\<open>LocalLookup\<close>, one
  round of the loop reports the response and leaves the lookup in \<^verbatim>\<open>_scheduled\<close>, with
  \<^verbatim>\<open>_lookups\<close> and \<^verbatim>\<open>_ready\<close> empty; and the tick never returns. When a \<^verbatim>\<open>RemoteLookup\<close>
  added after it fills the capacity, the tick returns, and the \<^verbatim>\<open>LocalLookup\<close> is still in
  \<^verbatim>\<open>_scheduled\<close>, not in \<^verbatim>\<open>_ready\<close>.
\<close>

theorem local_lookup_requeued:
  "observe (Some (bindE (core_add (new_local 7 example_query) one_slot)
                    (\<lambda>(l, s). start_one (\<lambda>a. True) 0 s))) =
     Some (Inr ([0], [], [], Some 0,
                [(7, 0, OnReceived \<lparr>rid = 5, rname = ''example.com'', rbits = 0, rcode = 0,
                                     truncated = False, answers = [''127.0.0.1'']\<rparr>)])) \<and>
   then_expire (\<lambda>a. True) 0 (added (new_local 7 example_query) one_slot) = None \<and>
   observe crowded =
     Some (Inr ([0], [1], [], Some 3,
                [(7, 0, OnReceived \<lparr>rid = 5, rname = ''example.com'', rbits = 0, rcode = 0,
                                     truncated = False, answers = [''127.0.0.1'']\<rparr>)]))"
proof (intro conjI)
  show "observe crowded =
     Some (Inr ([0], [1], [], Some 3,
                [(7, 0, OnReceived \<lparr>rid = 5, rname = ''example.com'', rbits = 0, rcode = 0,
                                     truncated = False, answers = [''127.0.0.1'']\<rparr>)]))"
    by code_simp
next
  show "observe (Some (bindE (core_add (new_local 7 example_query) one_slot)
                    (\<lambda>(l, s). start_one (\<lambda>a. True) 0 s))) =
     Some (Inr ([0], [], [], Some 0,
                [(7, 0, OnReceived \<lparr>rid = 5, rname = ''example.com'', rbits = 0, rcode = 0,
                                     truncated = False, answers = [''127.0.0.1'']\<rparr>)]))"
    by code_simp
next
  obtain s where s: "core_add (new_local 7 example_query) one_slot = Inr (0, s)"
    and st: "stuck_local (s\<lparr>timer := None\<rparr>)"
    and hd: "expire_head 0 (s\<lparr>timer := None\<rparr>) = Inr (s\<lparr>timer := None\<rparr>)"
    by (simp add: core_add_def core_reschedule_def push_scheduled_def queue_push_def bindE_def
        put_def one_slot_def new_core_def new_queue_def new_local_def core_onBuffered_def
        stuck_local_def queue_size_def expire_head_def udps_deliver_def udps_of_def
        set_udps_def new_udps_def Let_def)
  show "then_expire (\<lambda>a. True) 0 (added (new_local 7 example_query) one_slot) = None"
    using s hd stuck_local_never_returns [OF st]
    by (simp add: then_expire_def added_def bindE_def core_expire_def)
qed


subsection \<open>A retry and the assertion of step 5\<close>

definition retry_core :: core where
  "retry_core = new_core [nameserver1] 10 2 3 False (\<lambda>name. None)"

text \<open>
  What step 5 does when it returns: the first two cases of C7, and in the third case the
  timer is left alone and the assertion has held.
\<close>

lemma rearm_contract:
  assumes "rearm now s = Inr s'"
  shows "(\<not> queue_empty (ready s) \<longrightarrow> timer s' = Some 0) \<and>
         (queue_empty (ready s) \<and> \<not> queue_empty (lookups s) \<longrightarrow>
            (\<exists>l ts. queue_front (lookups s) = Inr l \<and> lookup_timestamp s l = Inr ts \<and>
               timer s' = Some (max 0 (ts + timeout s - now)))) \<and>
         (queue_empty (ready s) \<and> queue_empty (lookups s) \<longrightarrow>
            timer s' = timer s \<and> queue_empty (scheduled s))"
  using assms by (auto simp: rearm_def bindE_def split: if_splits sum.splits)

text \<open>
  C7 says that when step 5 arms no timer, \<^verbatim>\<open>_scheduled\<close> is empty as well. In the source,
  step 4 runs after step 3 and fills \<^verbatim>\<open>_scheduled\<close> with the lookups to retry. With two
  attempts and a timeout of 3: the tick at time 0 sends the query and arms the timer at
  3; the tick at time 3 finds the lookup timed out with a credit left, moves it to
  \<^verbatim>\<open>_scheduled\<close>, finds \<^verbatim>\<open>_ready\<close> and \<^verbatim>\<open>_lookups\<close> empty, and the assertion
  \<^verbatim>\<open>assert(_scheduled.empty())\<close> fails.
\<close>

theorem retry_trips_idle_assertion:
  "observe (then_expire (\<lambda>a. True) 0 (added (new_remote 7 example_query 0) retry_core)) =
     Some (Inr ([], [0], [], Some 3, [])) \<and>
   observe (then_expire (\<lambda>a. True) 3
             (then_expire (\<lambda>a. True) 0 (added (new_remote 7 example_query 0) retry_core))) =
     Some (Inl AssertionFailed)"
  by code_simp

subsection \<open>A lookup that no nameserver answers\<close>

definition single_attempt_core :: core where
  "single_attempt_core = new_core [nameserver1] 10 1 3 False (\<lambda>name. None)"

text \<open>
  C1 says that a \<^verbatim>\<open>RemoteLookup\<close> that is never answered gets exactly one \<^verbatim>\<open>onTimeout\<close>
  from the tick once its attempts are used up. In the source, with one attempt and a
  timeout of 3: after the ticks at times 0 and 3 the lookup is in \<^verbatim>\<open>_ready\<close> and no handler
  has been called; the next tick pops it in step 2, which destroys it, its handler still
  set: the destructor's \<^verbatim>\<open>cleanup()\<close> reaches \<^verbatim>\<open>shared_from_this()\<close> on an object that no
  shared pointer owns. No step of the tick calls \<^verbatim>\<open>timeout()\<close>.
\<close>

theorem exhausted_lookup_gets_no_timeout:
  "observe (then_expire (\<lambda>a. True) 3
             (then_expire (\<lambda>a. True) 0
               (added (new_remote 7 example_query 0) single_attempt_core))) =
     Some (Inr ([], [], [0], Some 0, [])) \<and>
   observe (then_expire (\<lambda>a. True) 3
             (then_expire (\<lambda>a. True) 3
               (then_expire (\<lambda>a. True) 0
                 (added (new_remote 7 example_query 0) single_attempt_core)))) =
     Some (Inl BadWeakPtr)"
  by code_simp

subsection \<open>A LocalLookup that is cancelled after its result\<close>

definition hosts_core :: core where
  "hosts_core = new_core [nameserver1] 10 1 3 False (\<lambda>name. Some [''127.0.0.1''])"

text \<open>
  C3 says that a lookup's handler gets at most one, and before its destruction exactly
  one, of the terminal callbacks. In the source, \<^verbatim>\<open>LocalLookup::execute\<close> reports the
  response and leaves \<^verbatim>\<open>_handler\<close> set, so that a later \<^verbatim>\<open>cancel()\<close> reports
  \<^verbatim>\<open>onCancelled\<close> too: the handler gets two terminal callbacks. This is so for the two
  calls by themselves, and for a lookup that a tick of the scheduler has executed and
  that the user cancels afterwards.
\<close>

theorem local_lookup_two_callbacks:
  "map_sum id (callbacks_of 0)
     (bindE (core_add (new_local 7 example_query) hosts_core)
        (\<lambda>(l, s). bindE (local_execute 0 l s) (\<lambda>(again, s1). local_cancel l s1))) =
   Inr [OnReceived \<lparr>rid = 5, rname = ''example.com'', rbits = 0, rcode = 0,
                    truncated = False, answers = [''127.0.0.1'']\<rparr>,
        OnCancelled] \<and>
   probe (callbacks_of 0) (then_cancel 0 crowded) =
   Some (Inr [OnReceived \<lparr>rid = 5, rname = ''example.com'', rbits = 0, rcode = 0,
                          truncated = False, answers = [''127.0.0.1'']\<rparr>,
              OnCancelled])"
  by code_simp

subsection \<open>A send that fails\<close>

text \<open>
  C5 says that every \<^verbatim>\<open>execute(now)\<close> of a \<^verbatim>\<open>RemoteLookup\<close> picks the nameserver of index
  \<open>(count + id) mod N\<close> or \<open>count mod N\<close>, counts the attempt, sets the time of the last
  send and returns true, also when the send fails, and that the lookup then times out
  and is retried. In the source, with one nameserver, two attempts and a timeout of 3,
  every send failing: the tick at time 0 hands the datagram to the core, the lookup is in
  flight with one attempt counted, the time 0 and no subscription, and the timer is armed
  at 3, as the claim says. The tick at time 3 finds the lookup timed out with a credit
  left and moves it to \<^verbatim>\<open>_scheduled\<close> after step 3 has run, and \<^verbatim>\<open>assert(_scheduled.empty())\<close>
  fails: the retry is not sent. And on a core without nameservers, as
  \<^verbatim>\<open>Core(loop, false)\<close> constructs it, \<^verbatim>\<open>execute\<close> computes \<^verbatim>\<open>% nscount\<close> with \<^verbatim>\<open>nscount\<close> zero.
\<close>

theorem failed_send_is_not_retried:
  "probe (\<lambda>s. (map snd (container (lookups s)), timer s, datagrams s,
                map_option impl (objects s 0), subscribed (ipv4 s), subscribed (ipv6 s)))
     (then_expire (\<lambda>a. False) 0 (added (new_remote 7 example_query 0) retry_core)) =
     Some (Inr ([0], Some 3, [(nameserver1, example_query)],
                Some (RemoteLookup \<lparr>count = 1, last = 0, rand_id = 0, subscriptions = [],
                                    connection = None\<rparr>),
                [], [])) \<and>
   observe (then_expire (\<lambda>a. False) 3
             (then_expire (\<lambda>a. False) 0 (added (new_remote 7 example_query 0) retry_core))) =
     Some (Inl AssertionFailed) \<and>
   observe (then_expire (\<lambda>a. True) 0
             (added (new_remote 7 example_query 0) (new_core [] 10 2 3 False (\<lambda>name. None)))) =
     Some (Inl DivisionByZero)"
  by code_simp

subsection \<open>A lookup that is cancelled before its first tick\<close>

text \<open>
  \<^verbatim>\<open>Core::done\<close> of a lookup whose node is not in \<^verbatim>\<open>_lookups\<close>: the chain of \<^verbatim>\<open>_lookups\<close> stays
  as it is and \<^verbatim>\<open>_lookups.size()\<close> is one less, modulo \<open>2\<^sup>6\<^sup>4\<close>.
\<close>

lemma core_done_elsewhere:
  assumes "core_done l s = Inr s'" and "objects s l = Some obj" and "position obj = Some it"
    and "\<not> valid_in (lookups s) it"
  shows "container (lookups s') = container (lookups s) \<and>
         queue_size (lookups s') = queue_size (lookups s) - 1"
  using assms queue_pop_item_elsewhere[of "objects s" l obj it "lookups s"]
  by (auto simp: core_done_def unlink_def bindE_def push_ready_def queue_push_def queue_size_def
      split: if_splits option.splits)

text \<open>
  C8 says that in every reachable state \<^verbatim>\<open>_lookups.size()\<close> is at most the capacity, and
  that \<^verbatim>\<open>Core::done\<close> only takes lookups out of \<^verbatim>\<open>_lookups\<close>. In the source, \<^verbatim>\<open>cancel()\<close> of a
  \<^verbatim>\<open>RemoteLookup\<close> calls \<^verbatim>\<open>cleanup()\<close> and that calls \<^verbatim>\<open>Core::done\<close>, wherever the lookup is.
  A lookup that is added and cancelled before the timer fires is still in \<^verbatim>\<open>_scheduled\<close>:
  \<^verbatim>\<open>_lookups.pop(lookup)\<close> erases a node of \<^verbatim>\<open>_scheduled\<close> and counts it off \<^verbatim>\<open>_lookups\<close>, which
  has none. With a capacity of 10, \<^verbatim>\<open>_lookups.size()\<close> is \<open>2\<^sup>6\<^sup>4 - 1\<close> after the call, and it
  stays so: the next tick destroys the cancelled lookup and starts nothing, and a lookup
  added after it is never started, for the test \<^verbatim>\<open>_lookups.size() < _capacity\<close> of step 3
  fails; step 5 finds it in \<^verbatim>\<open>_scheduled\<close> and its assertion fails.
\<close>

theorem cancel_before_first_tick_miscounts:
  "probe (\<lambda>s. (uint (queue_size (lookups s)), uint (capacity s),
                queue_size (lookups s) \<le> capacity s,
                map snd (container (scheduled s)), map snd (container (lookups s)),
                map snd (container (ready s)), events s))
     (then_cancel 0 (added (new_remote 7 example_query 0) retry_core)) =
     Some (Inr (18446744073709551615, 10, False, [], [], [0], [(7, 0, OnCancelled)])) \<and>
   probe (\<lambda>s. (uint (queue_size (lookups s)), uint (capacity s)))
     (then_expire (\<lambda>a. True) 0
        (then_cancel 0 (added (new_remote 7 example_query 0) retry_core))) =
     Some (Inr (18446744073709551615, 10)) \<and>
   observe (then_expire (\<lambda>a. True) 0
             (then_add (new_remote 8 second_query 1)
                (then_expire (\<lambda>a. True) 0
                   (then_cancel 0 (added (new_remote 7 example_query 0) retry_core))))) =
     Some (Inl AssertionFailed)"
  by code_simp


section \<open>The two loops of a tick\<close>

text \<open>What every round of a loop keeps, the loop keeps, when it returns.\<close>

lemma start_scheduled_invariant:
  assumes run: "start_scheduled sendable now s = Some (Inr s')"
    and init: "I s"
    and step: "\<And>s s1. I s \<Longrightarrow> queue_size (lookups s) < capacity s \<Longrightarrow>
                 \<not> queue_empty (scheduled s) \<Longrightarrow> start_one sendable now s = Inr s1 \<Longrightarrow> I s1"
  shows "I s'"
proof -
  have "sendable = sendable \<and> now = now \<longrightarrow> I s \<longrightarrow> (\<forall>t. (Inr s' :: core result) = Inr t \<longrightarrow> I t)"
  proof (rule start_scheduled.raw_induct
      [where P = "\<lambda>sendable' now' s y. sendable' = sendable \<and> now' = now \<longrightarrow> I s \<longrightarrow>
                    (\<forall>t. y = Inr t \<longrightarrow> I t)", OF _ run])
    fix f :: "(ip \<Rightarrow> bool) \<Rightarrow> real \<Rightarrow> core \<Rightarrow> core result option"
    fix sendable' now' s y
    assume ih: "\<And>sendable' now' s y. f sendable' now' s = Some y \<Longrightarrow>
                  sendable' = sendable \<and> now' = now \<longrightarrow> I s \<longrightarrow> (\<forall>t. y = Inr t \<longrightarrow> I t)"
    assume body: "(if queue_size (lookups s) < capacity s \<and> \<not> queue_empty (scheduled s)
      then case start_one sendable' now' s of Inl e \<Rightarrow> Some (Inl e)
           | Inr s1 \<Rightarrow> f sendable' now' s1
      else Some (Inr s)) = Some y"
    show "sendable' = sendable \<and> now' = now \<longrightarrow> I s \<longrightarrow> (\<forall>t. y = Inr t \<longrightarrow> I t)"
    proof (intro impI allI)
      fix t
      assume eq: "sendable' = sendable \<and> now' = now" and i: "I s" and y: "y = Inr t"
      show "I t"
      proof (cases "queue_size (lookups s) < capacity s \<and> \<not> queue_empty (scheduled s)")
        case False
        then show ?thesis using body y i by (auto split: if_splits)
      next
        case True
        then obtain s1 where s1: "start_one sendable now s = Inr s1"
          and rec: "f sendable now s1 = Some y"
          using body y eq by (auto split: sum.splits)
        have "I s1" using step[OF i _ _ s1] True by simp
        then show ?thesis using ih[OF rec] y by simp
      qed
    qed
  qed
  then show ?thesis using init by simp
qed

lemma timeout_pass_invariant:
  assumes "timeout_pass timeouttime s = Inr s'"
    and "I s"
    and step: "\<And>s s1. I s \<Longrightarrow> timeout_one s = Inr s1 \<Longrightarrow> I s1"
  shows "I s'"
  using assms(1,2)
proof (induction timeouttime s rule: timeout_pass.induct)
  case (1 timeouttime s)
  from "1.prems"(1) obtain expired where e: "front_timed_out timeouttime s = Inr expired"
    by (subst (asm) timeout_pass.simps) (auto split: sum.splits)
  show ?case
  proof (cases expired)
    case False
    then show ?thesis using "1.prems" e by (subst (asm) timeout_pass.simps) simp
  next
    case True
    then obtain s1 where s1: "timeout_one s = Inr s1" and rec: "timeout_pass timeouttime s1 = Inr s'"
      using "1.prems"(1) e by (subst (asm) timeout_pass.simps) (auto split: sum.splits)
    have "I s1" using step[OF "1.prems"(2) s1] .
    then show ?thesis using "1.IH"[OF e True s1 rec] by simp
  qed
qed

lemma rearm_frame: "rearm now s = Inr s' \<Longrightarrow> \<exists>t. s' = s\<lparr>timer := t\<rparr>"
proof -
  have "s = s\<lparr>timer := timer s\<rparr>" by simp
  then have "\<exists>t. s = s\<lparr>timer := t\<rparr>" by (rule exI)
  moreover assume "rearm now s = Inr s'"
  ultimately show ?thesis
    by (auto simp: rearm_def bindE_def split: if_splits sum.splits)
qed

section \<open>The callbacks of a tick\<close>

text \<open>
  \<open>told s s'\<close>: the calls on the handlers recorded in \<open>s'\<close> are those of \<open>s\<close>, followed by
  calls other than \<^verbatim>\<open>onTimeout\<close>.
\<close>

definition told :: "core \<Rightarrow> core \<Rightarrow> bool" where
  "told s s' =
     (\<exists>more. events s' = events s @ more \<and> list_all (\<lambda>ev. snd (snd ev) \<noteq> OnTimeout) more)"

lemma told_same: "events s' = events s \<Longrightarrow> told s s'"
  by (simp add: told_def)

lemma told_trans: "told a b \<Longrightarrow> told b c \<Longrightarrow> told a c"
  by (auto simp: told_def)

lemma invoke_told: "invoke h l cb s = Inr s' \<Longrightarrow> cb \<noteq> OnTimeout \<Longrightarrow> told s s'"
  by (auto simp: invoke_def told_def split: option.splits)

lemma unsubscribe_each_events: "events (unsubscribe_each l i subs s) = events s"
proof -
  obtain u4 u6 where "unsubscribe_each l i subs s = s\<lparr>ipv4 := u4, ipv6 := u6\<rparr>"
    using unsubscribe_each_frame by blast
  then show ?thesis by simp
qed

lemma remote_unsubscribe_events: "remote_unsubscribe l s = Inr s' \<Longrightarrow> events s' = events s"
  by (auto simp: remote_unsubscribe_def deref_remote_def bindE_def put_def unsubscribe_each_events
      split: option.splits impl.splits)

lemma push_events:
  "push_ready l s = Inr s' \<Longrightarrow> events s' = events s"
  "push_scheduled l s = Inr s' \<Longrightarrow> events s' = events s"
  "push_lookups l s = Inr s' \<Longrightarrow> events s' = events s"
  by (auto simp: push_ready_def push_scheduled_def push_lookups_def bindE_def
      split: sum.splits prod.splits)

lemma core_done_events: "core_done l s = Inr s' \<Longrightarrow> events s' = events s"
  by (auto simp: core_done_def unlink_def bindE_def
      split: sum.splits prod.splits option.splits if_splits dest!: push_events(1))

lemma remote_cleanup_events:
  assumes "remote_cleanup l s = Inr (h, s')"
  shows "events s' = events s"
proof -
  from assms obtain obj r where o: "objects s l = Some obj" "impl obj = RemoteLookup r"
    by (auto simp: remote_cleanup_def deref_remote_def bindE_def split: option.splits impl.splits)
  from remote_cleanup_effect[OF assms o] show ?thesis by simp
qed

lemma remote_report_told: "remote_report resp l s = Inr s' \<Longrightarrow> told s s'"
proof -
  assume a: "remote_report resp l s = Inr s'"
  then have "s' = s \<or> (\<exists>h s1 r. remote_cleanup l s = Inr (h, s1) \<and> invoke h l (OnReceived r) s1 = Inr s')"
    by (auto simp: remote_report_def bindE_def deref_remote_def
        split: sum.splits option.splits impl.splits if_splits prod.splits)
  then show ?thesis
  proof
    assume "s' = s" then show ?thesis by (simp add: told_same)
  next
    assume "\<exists>h s1 r. remote_cleanup l s = Inr (h, s1) \<and> invoke h l (OnReceived r) s1 = Inr s'"
    then obtain h s1 r where c: "remote_cleanup l s = Inr (h, s1)"
      and i: "invoke h l (OnReceived r) s1 = Inr s'" by blast
    have "told s s1" using remote_cleanup_events[OF c] by (rule told_same)
    moreover have "told s1 s'" using i by (rule invoke_told) simp
    ultimately show ?thesis by (rule told_trans)
  qed
qed

lemma remote_onReceived_told:
  assumes "remote_onReceived now a resp l s = Inr (b, s')"
  shows "told s s'"
proof (cases "truncated resp")
  case False
  with assms have "s' = s \<or> remote_report resp l s = Inr s'"
    by (auto simp: remote_onReceived_def bindE_def deref_remote_def
        split: sum.splits option.splits impl.splits if_splits)
  then show ?thesis using remote_report_told by (auto simp: told_same)
next
  case True
  show ?thesis
  proof (cases "s' = s")
    case True
    then show ?thesis by (simp add: told_same)
  next
    case False
    with assms \<open>truncated resp\<close> obtain obj r s2 obj2 r2 where
      u: "remote_unsubscribe l
            (put l (obj\<lparr>impl := RemoteLookup (r\<lparr>connection := Some \<lparr>peer = a, original = resp\<rparr>\<rparr>)\<rparr>) s)
          = Inr s2"
      and s': "s' = put l (obj2\<lparr>impl := RemoteLookup (r2\<lparr>last := now\<rparr>)\<rparr>) s2"
      by (auto simp: remote_onReceived_def bindE_def deref_remote_def Let_def
          split: sum.splits option.splits impl.splits if_splits)
    have "events s' = events s"
      using remote_unsubscribe_events[OF u] s' by (simp add: put_def)
    then show ?thesis by (rule told_same)
  qed
qed

lemma deliver_to_told: "deliver_to now a resp ls s = Inr s' \<Longrightarrow> told s s'"
proof (induction ls arbitrary: s)
  case Nil
  then show ?case by (simp add: told_same)
next
  case (Cons l ls)
  then obtain b s1 where r: "remote_onReceived now a resp l s = Inr (b, s1)"
    and d: "deliver_to now a resp ls s1 = Inr s'"
    by (auto simp: bindE_def split: sum.splits)
  show ?case using remote_onReceived_told[OF r] Cons.IH[OF d] by (rule told_trans)
qed

lemma deliver_all_told: "deliver_all v now rs s = Inr s' \<Longrightarrow> told s s'"
proof (induction rs arbitrary: s)
  case Nil
  then show ?case by (simp add: told_same)
next
  case (Cons p rs)
  obtain a resp where p: "p = (a, resp)" by (cases p)
  from Cons.prems p obtain s1 where
    d: "deliver_to now a resp (subscribers (udps_of v s) a (rid resp)) s = Inr s1"
    and r: "deliver_all v now rs s1 = Inr s'"
    by (auto simp: bindE_def split: sum.splits)
  show ?case using deliver_to_told[OF d] Cons.IH[OF r] by (rule told_trans)
qed

lemma udps_deliver_told:
  assumes "udps_deliver v m now s = Inr (n, s')"
  shows "told s s'"
proof -
  let ?s1 = "set_udps v ((udps_of v s)\<lparr>buffer := drop m (buffer (udps_of v s))\<rparr>) s"
  from assms(1) have d: "deliver_all v now (take m (buffer (udps_of v s))) ?s1 = Inr s'"
    by (auto simp: udps_deliver_def Let_def bindE_def split: sum.splits)
  have "events ?s1 = events s" by (cases v) (simp_all add: set_udps_def)
  then have "told s ?s1" by (rule told_same)
  then show ?thesis using deliver_all_told[OF d] by (rule told_trans)
qed

lemma lookup_destroy_told:
  assumes "lookup_destroy l s = Inr s'"
  shows "told s s'"
proof -
  from assms obtain obj where o: "objects s l = Some obj"
    by (auto simp: lookup_destroy_def deref_def bindE_def split: option.splits)
  show ?thesis
  proof (cases "impl obj")
    case (RemoteLookup r)
    with assms o obtain h s1 where c: "remote_cleanup l s = Inr (h, s1)" and s': "s' = free l s1"
      by (auto simp: lookup_destroy_def deref_def bindE_def remote_destroy_def split: sum.splits)
    have "events s' = events s" using remote_cleanup_events[OF c] s' by (simp add: free_def)
    then show ?thesis by (rule told_same)
  next
    case (LocalLookup k)
    with assms o have "s' = free l s \<or> (\<exists>s1. invoke (handler obj) l OnCancelled s = Inr s1 \<and> s' = free l s1)"
      by (auto simp: lookup_destroy_def deref_def bindE_def local_destroy_def deref_local_def
          split: sum.splits if_splits)
    then show ?thesis
    proof (elim disjE exE conjE)
      assume "s' = free l s"
      then show ?thesis by (simp add: told_same free_def)
    next
      fix s1 assume i: "invoke (handler obj) l OnCancelled s = Inr s1" and s': "s' = free l s1"
      have "told s s1" using i by (rule invoke_told) simp
      moreover have "told s1 s'" using s' by (simp add: told_same free_def)
      ultimately show ?thesis by (rule told_trans)
    qed
  qed
qed

lemma pop_ready_told:
  assumes "pop_ready s = Inr s'"
  shows "told s s'"
proof -
  from assms obtain l q where r: "release l (s\<lparr>ready := q\<rparr>) = Inr s'"
    by (auto simp: pop_ready_def bindE_def split: sum.splits)
  then have "s' = s\<lparr>ready := q\<rparr> \<or> lookup_destroy l (s\<lparr>ready := q\<rparr>) = Inr s'"
    by (auto simp: release_def split: if_splits)
  then have "told (s\<lparr>ready := q\<rparr>) s'" using lookup_destroy_told by (auto simp: told_same)
  moreover have "told s (s\<lparr>ready := q\<rparr>)" by (simp add: told_same)
  ultimately show ?thesis using told_trans by blast
qed

lemma drain_ready_told: "drain_ready n s = Inr s' \<Longrightarrow> told s s'"
proof (induction n arbitrary: s)
  case 0
  then show ?case by (simp add: told_same)
next
  case (Suc n)
  then obtain s1 where p: "pop_ready s = Inr s1" and d: "drain_ready n s1 = Inr s'"
    by (auto simp: bindE_def split: sum.splits)
  show ?case using pop_ready_told[OF p] Suc.IH[OF d] by (rule told_trans)
qed

lemma expire_head_told:
  assumes "expire_head now s = Inr s'"
  shows "told s s'"
proof -
  from assms(1) obtain n4 s1 n6 s2 where
    d4: "udps_deliver V4 8 now s = Inr (n4, s1)" and
    d6: "udps_deliver V6 (8 - n4) now s1 = Inr (n6, s2)" and
    dr: "drain_ready (min (8 - n4 - n6) (unat (queue_size (ready s2)))) s2 = Inr s'"
    by (auto simp: expire_head_def bindE_def split: sum.splits prod.splits)
  show ?thesis
    using udps_deliver_told[OF d4] udps_deliver_told[OF d6] drain_ready_told[OF dr] told_trans
    by blast
qed

lemma lookup_execute_told:
  assumes "lookup_execute sendable now l s = Inr (executed, s1)"
  shows "told s s1"
proof -
  from assms obtain obj where o: "objects s l = Some obj"
    by (auto simp: lookup_execute_def deref_def bindE_def split: option.splits)
  show ?thesis
  proof (cases "impl obj")
    case (RemoteLookup r)
    then have "events s1 = events s" using assms o
      by (auto simp: lookup_execute_def deref_def bindE_def remote_execute_def deref_remote_def
          core_datagram_def Let_def put_def set_udps_def
          split: if_splits option.splits inbound.splits)
    then show ?thesis by (rule told_same)
  next
    case (LocalLookup k)
    then show ?thesis using assms o
      by (auto simp: lookup_execute_def deref_def bindE_def local_execute_def deref_local_def
          hosts_notify_def invoke_def Let_def put_def told_def
          split: if_splits option.splits sum.splits impl.splits)
  qed
qed

lemma start_one_told:
  assumes "start_one sendable now s = Inr s'"
  shows "told s s'"
proof -
  from assms(1) obtain l q executed s1 where
    e: "lookup_execute sendable now l (s\<lparr>scheduled := q\<rparr>) = Inr (executed, s1)" and
    p: "push_lookups l s1 = Inr s' \<or> push_scheduled l s1 = Inr s' \<or> push_ready l s1 = Inr s'"
    by (auto simp: start_one_def bindE_def split: sum.splits prod.splits if_splits)
  have "told (s\<lparr>scheduled := q\<rparr>) s1" using e by (rule lookup_execute_told)
  then have "told s s1" by (simp add: told_def)
  moreover have "told s1 s'" using p push_events by (auto intro: told_same)
  ultimately show ?thesis by (rule told_trans)
qed

lemma timeout_one_told:
  assumes "timeout_one s = Inr s'"
  shows "told s s'"
proof -
  from assms obtain l q where
    p: "push_scheduled l (s\<lparr>lookups := q\<rparr>) = Inr s' \<or> push_ready l (s\<lparr>lookups := q\<rparr>) = Inr s'"
    by (auto simp: timeout_one_def bindE_def split: sum.splits prod.splits if_splits)
  then have "events s' = events s" using push_events[of l "s\<lparr>lookups := q\<rparr>" s'] by auto
  then show ?thesis by (rule told_same)
qed

text \<open>
  Whatever a tick that returns has called on the handlers, none of the calls is
  \<^verbatim>\<open>onTimeout\<close>: \<^verbatim>\<open>RemoteLookup::timeout()\<close> is the only method that reports a timeout, and
  no step of \<^verbatim>\<open>Core::expire\<close> calls it.
\<close>

lemma core_expire_reports_no_timeout:
  assumes "core_expire sendable now s = Some (Inr s')"
  shows "told s s'"
proof -
  from assms(1) obtain s1 s2 s3 where
    h: "expire_head now (s\<lparr>timer := None\<rparr>) = Inr s1" and
    st: "start_scheduled sendable now s1 = Some (Inr s2)" and
    tp: "timeout_pass (now - timeout s2) s2 = Inr s3" and
    re: "rearm now s3 = Inr s'"
    by (auto simp: core_expire_def bindE_def split: sum.splits option.splits)
  have "told (s\<lparr>timer := None\<rparr>) s1" using h by (rule expire_head_told)
  then have i1: "told s s1" by (simp add: told_def)
  have i2: "told s s2"
  proof (rule start_scheduled_invariant[OF st, where I = "told s", OF i1])
    fix t t1
    assume "told s t" "start_one sendable now t = Inr t1"
    then show "told s t1" using start_one_told told_trans by blast
  qed
  have i3: "told s s3"
  proof (rule timeout_pass_invariant[OF tp, where I = "told s", OF i2])
    fix t t1
    assume "told s t" "timeout_one t = Inr t1"
    then show "told s t1" using timeout_one_told told_trans by blast
  qed
  obtain tm where "s' = s3\<lparr>timer := tm\<rparr>" using rearm_frame[OF re] by blast
  then show ?thesis using i3 by (simp add: told_def)
qed

section \<open>The order of the lookups in flight\<close>

text \<open>
  The timestamps of the lookups in \<^verbatim>\<open>_lookups\<close>, front first, as \<^verbatim>\<open>timestamp()\<close> returns
  them, and the order the scheduler relies on: every lookup in flight is alive and
  the timestamps do not decrease from the front to the back.
\<close>

definition stamps :: "core \<Rightarrow> real result list" where
  "stamps s = map (\<lambda>node. lookup_timestamp s (snd node)) (container (lookups s))"

definition ordered :: "core \<Rightarrow> bool" where
  "ordered s = (list_all (\<lambda>ts. \<not> isl ts) (stamps s) \<and> sorted (map projr (stamps s)))"

text \<open>
  Two lookups are sent at the times 0 and 1, with a timeout of 3. Then the first one is
  answered with a truncated response, which the tick at time 2 delivers.
\<close>

definition truncated_reply :: response where
  "truncated_reply = \<lparr>rid = 5, rname = ''example.com'', rbits = 0, rcode = 0, truncated = True, answers = []\<rparr>"

definition two_inflight :: "core result option" where
  "two_inflight =
     then_readable V4 nameserver1 truncated_reply
       (then_expire (\<lambda>a. True) 1
          (then_add (new_remote 7 second_query 1)
             (then_expire (\<lambda>a. True) 0
                (added (new_remote 7 example_query 0) single_attempt_core))))"

text \<open>
  C4 says that in every reachable state the lookups in flight are in the order of their
  timestamps, and that the UDP path of \<^verbatim>\<open>onReceived\<close> which upgrades a lookup to TCP keeps
  that order. Steps 4 and 5 of the tick rely on it: step 4 stops at the first lookup at
  the front that has not timed out, and step 5 arms the timer for the lookup at the
  front. The source loses the order: before the tick the timestamps are 0 and 1; the
  tick at time 2 delivers the truncated response, the first lookup opens its connection
  and sets \<^verbatim>\<open>_last\<close> to the time of the upgrade while it stays at the front of the queue;
  after the tick the timestamps are 2 and 1. At time 4 the second lookup, sent at 1, has
  timed out; the tick at time 4 looks at the front only, leaves both lookups in flight
  and arms the timer for another second.
\<close>

theorem tcp_upgrade_breaks_order:
  "probe (\<lambda>s. (ordered s, stamps s)) two_inflight = Some (Inr (True, [Inr 0, Inr 1])) \<and>
   probe (\<lambda>s. (ordered s, stamps s)) (then_expire (\<lambda>a. True) 2 two_inflight) =
     Some (Inr (False, [Inr 2, Inr 1])) \<and>
   observe (then_expire (\<lambda>a. True) 4 (then_expire (\<lambda>a. True) 2 two_inflight)) =
     Some (Inr ([], [0, 1], [], Some 1, []))"
  by code_simp

end
